theory Spec2Isabelle
  imports Main "HOL-Library.Word"
begin

section \<open>The program representation read by the pass\<close>

text \<open>
  \<^verbatim>\<open>LoopFeatureExtractor.cpp\<close> reads LLVM basic blocks, instructions and loops
  through their public accessors. The embedding keeps exactly what the pass asks of them.
  A basic block pointer is a number (its identity); the opcode decides every \<^verbatim>\<open>isa<>\<close>
  test of the source; a user of an instruction is either an instruction, known by the
  block that holds it, or some other value.
\<close>

datatype opcode =
    Ret | Br bool | Switch | IndirectBr | Invoke | Resume | Unreachable
  | CleanupRet | CatchRet | CatchSwitch | CallBr
  | PHI | Call | Load | Store | FAdd | FSub | FMul | FDiv | OtherOp

datatype user = InstUser nat | NonInstUser

record Instruction =
  getOpcode :: opcode
  getNumOperands :: nat
  users :: "user list"

fun terminator_opcode :: "opcode \<Rightarrow> bool" where
  "terminator_opcode Ret = True"
| "terminator_opcode (Br c) = True"
| "terminator_opcode Switch = True"
| "terminator_opcode IndirectBr = True"
| "terminator_opcode Invoke = True"
| "terminator_opcode Resume = True"
| "terminator_opcode Unreachable = True"
| "terminator_opcode CleanupRet = True"
| "terminator_opcode CatchRet = True"
| "terminator_opcode CatchSwitch = True"
| "terminator_opcode CallBr = True"
| "terminator_opcode other = False"

definition isTerminator :: "Instruction \<Rightarrow> bool" where
  "isTerminator I = terminator_opcode (getOpcode I)"

definition isa_PHINode :: "Instruction \<Rightarrow> bool" where
  "isa_PHINode I = (getOpcode I = PHI)"

definition isa_CallBase :: "Instruction \<Rightarrow> bool" where
  "isa_CallBase I = (getOpcode I = Call \<or> getOpcode I = Invoke \<or> getOpcode I = CallBr)"

definition isa_LoadInst :: "Instruction \<Rightarrow> bool" where
  "isa_LoadInst I = (getOpcode I = Load)"

definition isa_StoreInst :: "Instruction \<Rightarrow> bool" where
  "isa_StoreInst I = (getOpcode I = Store)"

definition isa_BranchInst :: "Instruction \<Rightarrow> bool" where
  "isa_BranchInst I = (case getOpcode I of Br c \<Rightarrow> True | other \<Rightarrow> False)"

definition isConditional :: "Instruction \<Rightarrow> bool" where
  "isConditional I = (case getOpcode I of Br c \<Rightarrow> c | other \<Rightarrow> False)"

definition isa_UnreachableInst :: "Instruction \<Rightarrow> bool" where
  "isa_UnreachableInst I = (getOpcode I = Unreachable)"

definition isa_ReturnInst :: "Instruction \<Rightarrow> bool" where
  "isa_ReturnInst I = (getOpcode I = Ret)"

record BasicBlock =
  BB_id :: nat
  BB_getName :: string
  insts :: "Instruction list"
  predecessors :: "nat list"
  successors :: "nat list"

text \<open>
  \<^verbatim>\<open>BasicBlock::getTerminator\<close> is null for an empty block and for a block whose last
  instruction is no terminator.
\<close>

definition getTerminator :: "BasicBlock \<Rightarrow> Instruction option" where
  "getTerminator BB =
     (if insts BB = [] then None
      else if isTerminator (last (insts BB)) then Some (last (insts BB))
      else None)"

text \<open>
  The bound oracle: \<^verbatim>\<open>SE.getBackedgeTakenCount(L)\<close> is tested for null, then for being a
  \<^verbatim>\<open>SCEVConstant\<close>. The constant carries what \<^verbatim>\<open>getValue()->getZExtValue()\<close> returns, an
  unsigned 64-bit value.
\<close>

datatype SCEV = SCEVConstant "64 word" | SCEVCouldNotCompute | SCEVNotConstant

datatype Loop =
  Loop (getHeader: BasicBlock) (blocks: "BasicBlock list") (getLoopDepth: nat)
       (getSubLoops: "Loop list")

definition contains :: "Loop \<Rightarrow> nat \<Rightarrow> bool" where
  "contains L b = (b \<in> set (map BB_id (blocks L)))"

section \<open>The local variables of analyzeLoop\<close>

text \<open>
  The counters are C++ \<^verbatim>\<open>int\<close>s: 32-bit words, read as two's complement numbers
  (\<open>sint\<close>) where they are compared or printed, so that a count of \<open>2^31\<close> or more wraps
  around as it does in the compiled pass. \<^verbatim>\<open>trip_count\<close> is the value of the
  \<^verbatim>\<open>int64_t\<close> that receives an unsigned 64-bit sum.
\<close>

record locals =
  unique_preds :: "nat set"
  unique_succs :: "nat set"
  num_instr :: "32 word"
  num_phis :: "32 word"
  num_calls :: "32 word"
  num_float_ops :: "32 word"
  nums_branchs :: "32 word"
  num_operands :: "32 word"
  num_memory_ops :: "32 word"
  num_uses :: "32 word"
  num_blocks_in_lp :: "32 word"
  num_unique_predicates :: "32 word"
  ends_with_unreachable :: bool
  ends_with_return :: bool
  ends_with_cond_branch :: bool
  ends_with_branch :: bool
  num_preds :: "32 word"
  num_succ :: "32 word"
  trip_count :: int

definition initial_locals :: locals where
  "initial_locals =
     \<lparr> unique_preds = {}, unique_succs = {},
       num_instr = 0, num_phis = 0, num_calls = 0,
       num_float_ops = 0, nums_branchs = 0, num_operands = 0, num_memory_ops = 0,
       num_uses = 0, num_blocks_in_lp = 0, num_unique_predicates = 0,
       ends_with_unreachable = False, ends_with_return = False,
       ends_with_cond_branch = False, ends_with_branch = False,
       num_preds = 0, num_succ = 0, trip_count = 0 \<rparr>"

text \<open>The innermost loop of the source, over the users of one instruction.\<close>

definition visit_user :: "Loop \<Rightarrow> user \<Rightarrow> locals \<Rightarrow> locals" where
  "visit_user L U a =
     (case U of
        InstUser parent \<Rightarrow>
          (if contains L parent then a\<lparr>num_uses := num_uses a + 1\<rparr> else a)
      | NonInstUser \<Rightarrow> a)"

text \<open>The body of \<^verbatim>\<open>for (Instruction &I : *BB)\<close>.\<close>

definition visit_inst :: "Loop \<Rightarrow> Instruction \<Rightarrow> locals \<Rightarrow> locals" where
  "visit_inst L I a0 =
     (let a1 = a0\<lparr>num_instr := num_instr a0 + 1,
                  num_operands := num_operands a0 + of_nat (getNumOperands I)\<rparr>;
          a2 = (if isa_PHINode I then a1\<lparr>num_phis := num_phis a1 + 1\<rparr> else a1);
          a3 = (if isa_CallBase I then a2\<lparr>num_calls := num_calls a2 + 1\<rparr> else a2);
          a4 = (if isa_LoadInst I \<or> isa_StoreInst I
                then a3\<lparr>num_memory_ops := num_memory_ops a3 + 1\<rparr> else a3);
          a5 = (if isa_BranchInst I
                then (let b1 = a4\<lparr>nums_branchs := nums_branchs a4 + 1\<rparr>;
                          b2 = (if isConditional I
                                then b1\<lparr>ends_with_cond_branch := True\<rparr> else b1)
                      in b2\<lparr>ends_with_branch := True\<rparr>)
                else a4);
          a6 = (if getOpcode I = FAdd \<or> getOpcode I = FSub \<or>
                   getOpcode I = FMul \<or> getOpcode I = FDiv
                then a5\<lparr>num_float_ops := num_float_ops a5 + 1\<rparr> else a5)
      in fold (visit_user L) (users I) a6)"

text \<open>The body of \<^verbatim>\<open>for (auto *BB : L->blocks())\<close>.\<close>

definition visit_block :: "Loop \<Rightarrow> BasicBlock \<Rightarrow> locals \<Rightarrow> locals" where
  "visit_block L BB a0 =
     (let a1 = a0\<lparr>num_blocks_in_lp := num_blocks_in_lp a0 + 1\<rparr>;
          a2 = fold (visit_inst L) (insts BB) a1;
          a3 = (case getTerminator BB of
                  Some TI \<Rightarrow>
                    (let t1 = (if isa_UnreachableInst TI
                               then a2\<lparr>ends_with_unreachable := True\<rparr> else a2)
                     in (if isa_ReturnInst TI then t1\<lparr>ends_with_return := True\<rparr> else t1))
                | None \<Rightarrow> a2);
          a4 = fold (\<lambda>Pred a. a\<lparr>unique_preds := insert Pred (unique_preds a)\<rparr>)
                    (predecessors BB) a3
      in fold (\<lambda>Succ a. a\<lparr>unique_succs := insert Succ (unique_succs a)\<rparr>)
              (successors BB) a4)"

text \<open>
  Lines 166 to 175: the unsigned 64-bit sum \<^verbatim>\<open>getZExtValue() + 1\<close> is stored in an
  \<^verbatim>\<open>int64_t\<close>, so it is read back as a two's complement number.
\<close>

definition compute_trip_count :: "SCEV option \<Rightarrow> int" where
  "compute_trip_count TC =
     (case TC of
        Some (SCEVConstant c) \<Rightarrow> sint (c + 1)
      | Some other \<Rightarrow> 0
      | None \<Rightarrow> 0)"

text \<open>
  The values of all local variables when the output statement is reached. Lines 162 to
  164 store the \<^verbatim>\<open>size_t\<close> sizes of the two sets in \<^verbatim>\<open>int\<close>s, which keeps their low
  32 bits.
\<close>

definition loop_locals :: "Loop \<Rightarrow> (Loop \<Rightarrow> SCEV option) \<Rightarrow> locals" where
  "loop_locals L SE =
     (let a1 = fold (visit_block L) (blocks L) initial_locals;
          a2 = a1\<lparr>num_unique_predicates := of_nat (card (unique_preds a1))\<rparr>;
          a3 = a2\<lparr>num_preds := num_unique_predicates a2\<rparr>;
          a4 = a3\<lparr>num_succ := of_nat (card (unique_succs a3))\<rparr>
      in a4\<lparr>trip_count := compute_trip_count (SE L)\<rparr>)"

section \<open>Process state and files\<close>

text \<open>
  The static members and static locals of the pass, together with the two files it
  touches. \<^verbatim>\<open>loop_features.csv\<close> is its text (opening for append creates a missing file,
  so a missing file and an empty one read alike); \<^verbatim>\<open>code_id.txt\<close> is the unsigned value
  that stream extraction reads from it, or \<open>None\<close> when it cannot be opened for reading.
  Whether a file can be opened for writing, and whether the dataset can be opened for
  reading, is part of the environment. Diagnostics sent to \<^verbatim>\<open>errs()\<close> are left out.
\<close>

record env =
  initialized :: bool
  OutFile_is_open :: bool
  CodeIDCounter :: "32 word"
  CurrentCodeID :: "32 word option"
  loop_features_csv :: string
  csv_can_open :: bool
  csv_can_read :: bool
  code_id_txt :: "32 word option"
  code_id_can_write :: bool

text \<open>A new process over the same files: every static is back at its initial value.\<close>

definition new_process :: "env \<Rightarrow> env" where
  "new_process w =
     w\<lparr>initialized := False, OutFile_is_open := False,
       CodeIDCounter := 0, CurrentCodeID := None\<rparr>"

definition header_line :: string where
  "header_line =
     ''CodeID,Function,LoopHeader,num_instr,num_phis,num_calls,num_preds,num_succ,'' @
     ''ends_with_unreachable,ends_with_return,ends_with_cond_branch,'' @
     ''ends_with_branch,num_float_ops,nums_branchs,num_operands,'' @
     ''num_memory_ops,num_unique_predicates,trip_count,num_uses,num_blocks_in_lp,loop_depth''"

text \<open>\<^verbatim>\<open>OutFile << text\<close>: a stream that was never opened drops what is sent to it.\<close>

definition write_OutFile :: "string \<Rightarrow> env \<Rightarrow> env" where
  "write_OutFile s w =
     (if OutFile_is_open w then w\<lparr>loop_features_csv := loop_features_csv w @ s\<rparr> else w)"

text \<open>
  Lines 29 and 30 open a second stream on the file and compare \<^verbatim>\<open>peek()\<close> with EOF
  without asking whether that stream is open: a stream that failed to open also answers
  EOF.
\<close>

definition initializeOutFile :: "env \<Rightarrow> env" where
  "initializeOutFile w =
     (if \<not> initialized w then
        (if \<not> csv_can_open w then w
         else
           (let w1 = w\<lparr>OutFile_is_open := True\<rparr>;
                writeHeader = (if csv_can_read w1 then loop_features_csv w1 = [] else True);
                w2 = (if writeHeader then write_OutFile (header_line @ [CHR 0x0A]) w1 else w1)
            in w2\<lparr>initialized := True\<rparr>))
      else w)"

definition initializeCodeIDCounter :: "env \<Rightarrow> env" where
  "initializeCodeIDCounter w =
     (case code_id_txt w of
        Some v \<Rightarrow> w\<lparr>CodeIDCounter := v\<rparr>
      | None \<Rightarrow> w\<lparr>CodeIDCounter := 0\<rparr>)"

definition saveCodeIDCounter :: "env \<Rightarrow> env" where
  "saveCodeIDCounter w =
     (if code_id_can_write w then w\<lparr>code_id_txt := Some (CodeIDCounter w)\<rparr> else w)"

definition constructor :: "env \<Rightarrow> env" where
  "constructor w = initializeCodeIDCounter (initializeOutFile w)"

definition destructor :: "env \<Rightarrow> env" where
  "destructor w = saveCodeIDCounter w"

section \<open>Writing one row\<close>

definition digit_char :: "nat \<Rightarrow> char" where
  "digit_char d = ''0123456789'' ! d"

fun show_nat :: "nat \<Rightarrow> string" where
  "show_nat n =
     (if n < 10 then [digit_char n] else show_nat (n div 10) @ [digit_char (n mod 10)])"

declare show_nat.simps [simp del]

definition show_int :: "int \<Rightarrow> string" where
  "show_int i = (if i < 0 then CHR ''-'' # show_nat (nat (- i)) else show_nat (nat i))"

definition show_flag :: "bool \<Rightarrow> string" where
  "show_flag b = show_int (if b then 1 else 0)"

text \<open>The output statement of analyzeLoop, lines 178 to 199.\<close>

definition output_row :: "32 word \<Rightarrow> string \<Rightarrow> string \<Rightarrow> locals \<Rightarrow> nat \<Rightarrow> string" where
  "output_row CodeID FuncName HeaderName a depth =
     show_nat (unat CodeID) @ '','' @
     FuncName @ '','' @
     HeaderName @ '','' @
     show_int (sint (num_instr a)) @ '','' @
     show_int (sint (num_phis a)) @ '','' @
     show_int (sint (num_calls a)) @ '','' @
     show_int (sint (num_preds a)) @ '','' @
     show_int (sint (num_succ a)) @ '','' @
     show_flag (ends_with_unreachable a) @ '','' @
     show_flag (ends_with_return a) @ '','' @
     show_flag (ends_with_cond_branch a) @ '','' @
     show_flag (ends_with_branch a) @ '','' @
     show_int (sint (num_float_ops a)) @ '','' @
     show_int (sint (nums_branchs a)) @ '','' @
     show_int (sint (num_operands a)) @ '','' @
     show_int (sint (num_memory_ops a)) @ '','' @
     show_int (sint (num_unique_predicates a)) @ '','' @
     show_int (trip_count a) @ '','' @
     show_int (sint (num_uses a)) @ '','' @
     show_int (sint (num_blocks_in_lp a)) @ '','' @
     show_nat depth @ [CHR 0x0A]"

section \<open>analyzeLoop and run\<close>

fun analyzeLoop :: "Loop \<Rightarrow> (Loop \<Rightarrow> SCEV option) \<Rightarrow> string \<Rightarrow> 32 word \<Rightarrow> env \<Rightarrow> env" where
  "analyzeLoop (Loop Header bs depth subs) SE FuncName CodeID w =
     (let L = Loop Header bs depth subs;
          w1 = write_OutFile
                 (output_row CodeID FuncName (BB_getName (getHeader L))
                    (loop_locals L SE) (getLoopDepth L)) w
      in fold (\<lambda>SubLoop w'. analyzeLoop SubLoop SE FuncName CodeID w') subs w1)"

record Function =
  F_getName :: string
  isDeclaration :: bool
  F_LoopInfo :: "Loop list"
  F_ScalarEvolution :: "Loop \<Rightarrow> SCEV option"

text \<open>The body of \<^verbatim>\<open>for (Function &F : M)\<close> in run; \<open>CodeID\<close> is the value of
  \<^verbatim>\<open>CurrentCodeID\<close> passed down.\<close>

definition run_function :: "32 word \<Rightarrow> Function \<Rightarrow> env \<Rightarrow> env" where
  "run_function CodeID F w =
     (if isDeclaration F then w
      else fold (\<lambda>L w'. analyzeLoop L (F_ScalarEvolution F) (F_getName F) CodeID w')
                (F_LoopInfo F) w)"

text \<open>
  \<^verbatim>\<open>static unsigned CurrentCodeID = CodeIDCounter++;\<close> runs its initialiser the first
  time control passes through it and never again.
\<close>

definition init_CurrentCodeID :: "env \<Rightarrow> 32 word \<times> env" where
  "init_CurrentCodeID w =
     (case CurrentCodeID w of
        None \<Rightarrow> (CodeIDCounter w,
                 w\<lparr>CurrentCodeID := Some (CodeIDCounter w),
                   CodeIDCounter := CodeIDCounter w + 1\<rparr>)
      | Some c \<Rightarrow> (c, w))"

definition run :: "Function list \<Rightarrow> env \<Rightarrow> env" where
  "run M w =
     (case init_CurrentCodeID w of
        (cid, w1) \<Rightarrow> fold (run_function cid) M w1)"

section \<open>Notions used to state the properties\<close>


text \<open>
  What LoopInfo guarantees of a loop nest: the block list of a loop names no block twice,
  and every block of a sub-loop is a block of its parent.
\<close>

fun loop_nest_ok :: "Loop \<Rightarrow> bool" where
  "loop_nest_ok (Loop Header bs depth subs) =
     (\<forall>S \<in> set subs.
        distinct (map BB_id (blocks S)) \<and>
        set (map BB_id (blocks S)) \<subseteq> set (map BB_id bs) \<and>
        loop_nest_ok S)"

text \<open>A loop followed by the loops nested in it, parents first.\<close>

fun loops_preorder :: "Loop \<Rightarrow> Loop list" where
  "loops_preorder (Loop Header bs depth subs) =
     Loop Header bs depth subs # concat (map loops_preorder subs)"

definition loop_row :: "Loop \<Rightarrow> (Loop \<Rightarrow> SCEV option) \<Rightarrow> string \<Rightarrow> 32 word \<Rightarrow> string" where
  "loop_row L SE FuncName CodeID =
     output_row CodeID FuncName (BB_getName (getHeader L)) (loop_locals L SE) (getLoopDepth L)"

definition loop_rows :: "Loop \<Rightarrow> (Loop \<Rightarrow> SCEV option) \<Rightarrow> string \<Rightarrow> 32 word \<Rightarrow> string list" where
  "loop_rows L SE FuncName CodeID =
     map (\<lambda>l. loop_row l SE FuncName CodeID) (loops_preorder L)"

definition function_rows :: "32 word \<Rightarrow> Function \<Rightarrow> string list" where
  "function_rows CodeID F =
     (if isDeclaration F then []
      else concat (map (\<lambda>L. loop_rows L (F_ScalarEvolution F) (F_getName F) CodeID)
                       (F_LoopInfo F)))"

definition module_rows :: "32 word \<Rightarrow> Function list \<Rightarrow> string list" where
  "module_rows CodeID M = concat (map (function_rows CodeID) M)"

text \<open>Reading a line of the dataset back: the fields between the commas.\<close>

fun csv_fields :: "string \<Rightarrow> string list" where
  "csv_fields [] = [[]]"
| "csv_fields (c # cs) =
     (if c = CHR '','' then [] # csv_fields cs
      else (case csv_fields cs of
              f # fs \<Rightarrow> (c # f) # fs
            | [] \<Rightarrow> [[c]]))"

text \<open>The columns of a row, in the order of the output statement.\<close>

definition output_columns :: "32 word \<Rightarrow> string \<Rightarrow> string \<Rightarrow> locals \<Rightarrow> nat \<Rightarrow> string list" where
  "output_columns CodeID FuncName HeaderName a depth =
     [show_nat (unat CodeID), FuncName, HeaderName,
      show_int (sint (num_instr a)), show_int (sint (num_phis a)), show_int (sint (num_calls a)),
      show_int (sint (num_preds a)), show_int (sint (num_succ a)),
      show_flag (ends_with_unreachable a), show_flag (ends_with_return a),
      show_flag (ends_with_cond_branch a), show_flag (ends_with_branch a),
      show_int (sint (num_float_ops a)), show_int (sint (nums_branchs a)), show_int (sint (num_operands a)),
      show_int (sint (num_memory_ops a)), show_int (sint (num_unique_predicates a)),
      show_int (trip_count a), show_int (sint (num_uses a)), show_int (sint (num_blocks_in_lp a)),
      show_nat depth]"

text \<open>
  The column order that the specification gives for writeRecord: the three keys, then the
  metrics in the order of its section 4.2.
\<close>

definition spec_section_4_2_columns ::
  "32 word \<Rightarrow> string \<Rightarrow> string \<Rightarrow> locals \<Rightarrow> nat \<Rightarrow> string list" where
  "spec_section_4_2_columns CodeID FuncName HeaderName a depth =
     [show_nat (unat CodeID), FuncName, HeaderName,
      show_int (sint (num_instr a)), show_int (sint (num_phis a)), show_int (sint (num_calls a)),
      show_int (sint (num_memory_ops a)), show_int (sint (nums_branchs a)),
      show_flag (ends_with_branch a), show_flag (ends_with_cond_branch a),
      show_flag (ends_with_return a), show_flag (ends_with_unreachable a),
      show_int (sint (num_float_ops a)), show_int (sint (num_operands a)),
      show_int (sint (num_preds a)), show_int (sint (num_succ a)), show_int (sint (num_uses a)),
      show_int (trip_count a), show_int (sint (num_blocks_in_lp a)), show_nat depth]"

text \<open>The number of line ends in a text, and the number of loops of a nest.\<close>

definition count_newlines :: "string \<Rightarrow> nat" where
  "count_newlines s = length (filter (\<lambda>c. c = CHR 0x0A) s)"

fun num_loops :: "Loop \<Rightarrow> nat" where
  "num_loops (Loop Header bs depth subs) = Suc (sum_list (map num_loops subs))"

text \<open>Reading a decimal numeral back.\<close>

definition digit_value :: "char \<Rightarrow> nat" where
  "digit_value c = of_char c - 48"

definition read_nat :: "string \<Rightarrow> nat" where
  "read_nat s = foldl (\<lambda>n c. 10 * n + digit_value c) 0 s"

section \<open>Example inputs\<close>

definition ex_cond_br :: Instruction where
  "ex_cond_br = \<lparr>getOpcode = Br True, getNumOperands = 3, users = []\<rparr>"

definition ex_br :: Instruction where
  "ex_br = \<lparr>getOpcode = Br False, getNumOperands = 1, users = []\<rparr>"

definition ex_load :: Instruction where
  "ex_load = \<lparr>getOpcode = Load, getNumOperands = 1, users = [InstUser 2, InstUser 7]\<rparr>"

definition ex_store :: Instruction where
  "ex_store = \<lparr>getOpcode = Store, getNumOperands = 2, users = []\<rparr>"

definition ex_phi :: Instruction where
  "ex_phi = \<lparr>getOpcode = PHI, getNumOperands = 2, users = [InstUser 1, InstUser 2]\<rparr>"

definition ex_header :: BasicBlock where
  "ex_header =
     \<lparr>BB_id = 1, BB_getName = ''for.cond'', insts = [ex_phi, ex_cond_br],
      predecessors = [0, 3], successors = [2, 7]\<rparr>"

definition ex_inner_header :: BasicBlock where
  "ex_inner_header =
     \<lparr>BB_id = 2, BB_getName = ''for.body'', insts = [ex_load, ex_store, ex_cond_br],
      predecessors = [1, 2], successors = [2, 3]\<rparr>"

definition ex_latch :: BasicBlock where
  "ex_latch =
     \<lparr>BB_id = 3, BB_getName = ''for.inc'', insts = [ex_br],
      predecessors = [2], successors = [1]\<rparr>"

definition ex_inner :: Loop where
  "ex_inner = Loop ex_inner_header [ex_inner_header] 2 []"

definition ex_outer :: Loop where
  "ex_outer = Loop ex_header [ex_header, ex_inner_header, ex_latch] 1 [ex_inner]"

definition ex_SE :: "Loop \<Rightarrow> SCEV option" where
  "ex_SE L = (if getLoopDepth L = 2 then Some (SCEVConstant 9) else Some SCEVCouldNotCompute)"

definition ex_main :: Function where
  "ex_main =
     \<lparr>F_getName = ''main'', isDeclaration = False, F_LoopInfo = [ex_outer],
      F_ScalarEvolution = ex_SE\<rparr>"

definition ex_printf :: Function where
  "ex_printf =
     \<lparr>F_getName = ''printf'', isDeclaration = True, F_LoopInfo = [],
      F_ScalarEvolution = (\<lambda>L. None)\<rparr>"

definition ex_straight :: Function where
  "ex_straight =
     \<lparr>F_getName = ''helper'', isDeclaration = False, F_LoopInfo = [],
      F_ScalarEvolution = (\<lambda>L. None)\<rparr>"

definition ex_env :: env where
  "ex_env =
     \<lparr>initialized = False, OutFile_is_open = False, CodeIDCounter = 0,
      CurrentCodeID = None, loop_features_csv = [], csv_can_open = True,
      csv_can_read = True, code_id_txt = Some 41, code_id_can_write = True\<rparr>"





definition join_commas :: "string list \<Rightarrow> string" where
  "join_commas cols = concat (case cols of [] \<Rightarrow> [] | c # cs \<Rightarrow> c # map (\<lambda>x. CHR '','' # x) cs)"

text \<open>
  Inputs at the edge of the 32-bit counters. \<open>2^31\<close> blocks, each a single branch to
  the next and the last back to the first, form one loop; block 1 also branches to
  itself and is a one-block sub-loop. A block that branches to itself and is entered
  from \<open>2^31 - 1\<close> other blocks has \<open>2^31\<close> distinct predecessors.
\<close>

definition ex_many :: nat where
  "ex_many = 2147483648"

definition ex_br_block :: "nat \<Rightarrow> BasicBlock" where
  "ex_br_block i =
     \<lparr>BB_id = i, BB_getName = ''bb'',
      insts = [if i = 1 then ex_cond_br else ex_br],
      predecessors = (if i = 1 then [0, 1] else [(i + ex_many - 1) mod ex_many]),
      successors = (if i = 1 then [1, 2] else [(i + 1) mod ex_many])\<rparr>"

definition ex_many_blocks :: "BasicBlock list" where
  "ex_many_blocks = map ex_br_block [0..<ex_many]"

definition ex_small_inner :: Loop where
  "ex_small_inner = Loop (ex_br_block 1) [ex_br_block 1] 2 []"

definition ex_many_loop :: Loop where
  "ex_many_loop = Loop (ex_br_block 0) ex_many_blocks 1 [ex_small_inner]"

definition ex_fan_in :: BasicBlock where
  "ex_fan_in =
     \<lparr>BB_id = 0, BB_getName = ''merge'', insts = [ex_br],
      predecessors = [0..<ex_many], successors = [0]\<rparr>"

definition ex_fan_in_loop :: Loop where
  "ex_fan_in_loop = Loop ex_fan_in [ex_fan_in] 1 []"

text \<open>
  Environments: a counter file holding the largest 32-bit value, a dataset that cannot
  be opened, and a populated dataset that can be appended to but not read.
\<close>

definition ex_env_max :: env where
  "ex_env_max = ex_env\<lparr>code_id_txt := Some 4294967295\<rparr>"

definition ex_env_locked :: env where
  "ex_env_locked = ex_env\<lparr>csv_can_open := False\<rparr>"

definition ex_env_unreadable :: env where
  "ex_env_unreadable =
     ex_env\<lparr>loop_features_csv := header_line @ [CHR 0x0A], csv_can_read := False\<rparr>"

section \<open>What one pass over the member blocks computes\<close>

lemma fold_visit_user:
  "fold (visit_user L) us a =
     a\<lparr>num_uses := num_uses a +
         of_nat (length (filter (\<lambda>U. case U of InstUser p \<Rightarrow> contains L p | NonInstUser \<Rightarrow> False) us))\<rparr>"
  by (induction us arbitrary: a) (auto simp: visit_user_def split: user.splits)

lemma visit_inst_flags:
  "ends_with_return (visit_inst L I a) = ends_with_return a"
  "ends_with_unreachable (visit_inst L I a) = ends_with_unreachable a"
  "unique_preds (visit_inst L I a) = unique_preds a"
  "unique_succs (visit_inst L I a) = unique_succs a"
  "num_blocks_in_lp (visit_inst L I a) = num_blocks_in_lp a"
  by (simp_all add: visit_inst_def fold_visit_user Let_def)

lemma visit_inst_branch:
  "ends_with_branch (visit_inst L I a) = (ends_with_branch a \<or> isa_BranchInst I)"
  "ends_with_cond_branch (visit_inst L I a) =
     (ends_with_cond_branch a \<or> (isa_BranchInst I \<and> isConditional I))"
  "nums_branchs (visit_inst L I a) = nums_branchs a + (if isa_BranchInst I then 1 else 0)"
  by (simp_all add: visit_inst_def fold_visit_user Let_def)

lemma fold_visit_inst_flags:
  "ends_with_return (fold (visit_inst L) xs a) = ends_with_return a"
  "ends_with_unreachable (fold (visit_inst L) xs a) = ends_with_unreachable a"
  "unique_preds (fold (visit_inst L) xs a) = unique_preds a"
  "unique_succs (fold (visit_inst L) xs a) = unique_succs a"
  "num_blocks_in_lp (fold (visit_inst L) xs a) = num_blocks_in_lp a"
  by (induction xs arbitrary: a; simp add: visit_inst_flags)+

lemma fold_visit_inst_branch:
  "ends_with_branch (fold (visit_inst L) xs a) =
     (ends_with_branch a \<or> (\<exists>I \<in> set xs. isa_BranchInst I))"
  "ends_with_cond_branch (fold (visit_inst L) xs a) =
     (ends_with_cond_branch a \<or> (\<exists>I \<in> set xs. isa_BranchInst I \<and> isConditional I))"
  "nums_branchs (fold (visit_inst L) xs a) =
     nums_branchs a + of_nat (length (filter isa_BranchInst xs))"
  by (induction xs arbitrary: a; auto simp add: visit_inst_branch)+

lemma fold_insert_preds:
  "fold (\<lambda>Pred a. a\<lparr>unique_preds := insert Pred (unique_preds a)\<rparr>) ps a =
     a\<lparr>unique_preds := unique_preds a \<union> set ps\<rparr>"
  by (induction ps arbitrary: a) auto

lemma fold_insert_succs:
  "fold (\<lambda>Succ a. a\<lparr>unique_succs := insert Succ (unique_succs a)\<rparr>) ss a =
     a\<lparr>unique_succs := unique_succs a \<union> set ss\<rparr>"
  by (induction ss arbitrary: a) auto


lemma visit_block_branch:
  "ends_with_branch (visit_block L BB a) =
     (ends_with_branch a \<or> (\<exists>I \<in> set (insts BB). isa_BranchInst I))"
  "ends_with_cond_branch (visit_block L BB a) =
     (ends_with_cond_branch a \<or>
      (\<exists>I \<in> set (insts BB). isa_BranchInst I \<and> isConditional I))"
  "nums_branchs (visit_block L BB a) =
     nums_branchs a + of_nat (length (filter isa_BranchInst (insts BB)))"
  by (simp_all add: visit_block_def Let_def fold_insert_preds fold_insert_succs
        fold_visit_inst_branch split: option.splits)

lemma visit_block_edges:
  "unique_preds (visit_block L BB a) = unique_preds a \<union> set (predecessors BB)"
  "unique_succs (visit_block L BB a) = unique_succs a \<union> set (successors BB)"
  "num_blocks_in_lp (visit_block L BB a) = num_blocks_in_lp a + 1"
  by (simp_all add: visit_block_def Let_def fold_insert_preds fold_insert_succs
        fold_visit_inst_flags split: option.splits)


lemma fold_visit_block_branch:
  "ends_with_branch (fold (visit_block L) bs a) =
     (ends_with_branch a \<or> (\<exists>BB \<in> set bs. \<exists>I \<in> set (insts BB). isa_BranchInst I))"
  "ends_with_cond_branch (fold (visit_block L) bs a) =
     (ends_with_cond_branch a \<or>
      (\<exists>BB \<in> set bs. \<exists>I \<in> set (insts BB). isa_BranchInst I \<and> isConditional I))"
  "nums_branchs (fold (visit_block L) bs a) =
     nums_branchs a + of_nat (\<Sum>BB \<leftarrow> bs. length (filter isa_BranchInst (insts BB)))"
  by (induction bs arbitrary: a; auto simp add: visit_block_branch)+

lemma fold_visit_block_edges:
  "unique_preds (fold (visit_block L) bs a) =
     unique_preds a \<union> (\<Union>BB \<in> set bs. set (predecessors BB))"
  "unique_succs (fold (visit_block L) bs a) =
     unique_succs a \<union> (\<Union>BB \<in> set bs. set (successors BB))"
  "num_blocks_in_lp (fold (visit_block L) bs a) = num_blocks_in_lp a + of_nat (length bs)"
  by (induction bs arbitrary: a; auto simp add: visit_block_edges)+

lemma loop_locals_fields:
  "ends_with_return (loop_locals L SE) =
     ends_with_return (fold (visit_block L) (blocks L) initial_locals)"
  "ends_with_unreachable (loop_locals L SE) =
     ends_with_unreachable (fold (visit_block L) (blocks L) initial_locals)"
  "ends_with_branch (loop_locals L SE) =
     ends_with_branch (fold (visit_block L) (blocks L) initial_locals)"
  "ends_with_cond_branch (loop_locals L SE) =
     ends_with_cond_branch (fold (visit_block L) (blocks L) initial_locals)"
  "nums_branchs (loop_locals L SE) =
     nums_branchs (fold (visit_block L) (blocks L) initial_locals)"
  "num_blocks_in_lp (loop_locals L SE) =
     num_blocks_in_lp (fold (visit_block L) (blocks L) initial_locals)"
  "num_unique_predicates (loop_locals L SE) =
     of_nat (card (unique_preds (fold (visit_block L) (blocks L) initial_locals)))"
  "num_preds (loop_locals L SE) =
     of_nat (card (unique_preds (fold (visit_block L) (blocks L) initial_locals)))"
  "num_succ (loop_locals L SE) =
     of_nat (card (unique_succs (fold (visit_block L) (blocks L) initial_locals)))"
  "trip_count (loop_locals L SE) = compute_trip_count (SE L)"
  by (simp_all add: loop_locals_def Let_def)

lemma initial_locals_fields:
  "ends_with_return initial_locals = False"
  "ends_with_unreachable initial_locals = False"
  "ends_with_branch initial_locals = False"
  "ends_with_cond_branch initial_locals = False"
  "nums_branchs initial_locals = 0"
  "num_blocks_in_lp initial_locals = 0"
  "unique_preds initial_locals = {}"
  "unique_succs initial_locals = {}"
  by (simp_all add: initial_locals_def)




section \<open>Terminators of the member blocks\<close>



section \<open>Branch instructions\<close>



section \<open>Counters within the range of a 32-bit int\<close>

lemma sint_of_nat_small:
  assumes "n < 2 ^ 31"
  shows "sint (of_nat n :: 32 word) = int n"
proof -
  have "sint (of_nat n :: 32 word) = signed_take_bit 31 (int n)"
    by (simp add: signed_of_nat)
  also have "\<dots> = int n"
    using assms by (intro signed_take_bit_int_eq_self) simp_all
  finally show ?thesis .
qed

lemma sint_of_nat_ex_many: "sint (of_nat ex_many :: 32 word) = - 2147483648"
  by (simp add: ex_many_def)

section \<open>Predecessor and successor sets\<close>

lemma num_preds_word:
  "num_preds (loop_locals L SE) =
     of_nat (card (\<Union>BB \<in> set (blocks L). set (predecessors BB)))"
  "num_succ (loop_locals L SE) =
     of_nat (card (\<Union>BB \<in> set (blocks L). set (successors BB)))"
  "num_unique_predicates (loop_locals L SE) = num_preds (loop_locals L SE)"
  by (simp_all add: loop_locals_fields fold_visit_block_edges initial_locals_fields)

text \<open>
  C7, as stated: for every loop \<open>num_preds\<close> is the number of distinct predecessor blocks
  of the member blocks and is not negative. Lines 162 to 164 store the size of the set
  in an \<^verbatim>\<open>int\<close>: for a loop whose one block has \<open>2^31\<close> distinct predecessors the
  value written is \<open>-2147483648\<close>.
\<close>

theorem num_preds_wraps_at_2_31:
  "card (\<Union>BB \<in> set (blocks ex_fan_in_loop). set (predecessors BB)) = 2147483648 \<and>
   sint (num_preds (loop_locals ex_fan_in_loop ex_SE)) = - 2147483648 \<and>
   sint (num_preds (loop_locals ex_fan_in_loop ex_SE)) < 0"
proof -
  have preds: "(\<Union>BB \<in> set (blocks ex_fan_in_loop). set (predecessors BB)) = {0..<ex_many}"
    by (simp add: ex_fan_in_loop_def ex_fan_in_def)
  have size: "card (\<Union>BB \<in> set (blocks ex_fan_in_loop). set (predecessors BB)) = ex_many"
    by (simp only: preds card_atLeastLessThan diff_zero)
  have a: "card (\<Union>BB \<in> set (blocks ex_fan_in_loop). set (predecessors BB)) = 2147483648"
    by (simp only: size ex_many_def)
  have "num_preds (loop_locals ex_fan_in_loop ex_SE) = of_nat ex_many"
    by (simp only: num_preds_word size)
  then have b: "sint (num_preds (loop_locals ex_fan_in_loop ex_SE)) = - 2147483648"
    by (simp only: sint_of_nat_ex_many)
  from b have c: "sint (num_preds (loop_locals ex_fan_in_loop ex_SE)) < 0"
    by simp
  show ?thesis
    by (rule conjI [OF a conjI [OF b c]])
qed

text \<open>
  C7, as the code has it. For every loop whose member blocks have fewer than \<open>2^31\<close>
  distinct predecessor blocks, \<open>num_preds\<close> is the number of those blocks (predecessors
  outside the loop included) and is not negative; the same holds of \<open>num_succ\<close> and the
  distinct successor blocks. In every row \<open>num_preds\<close> and \<open>num_unique_predicates\<close> are
  equal.
\<close>

theorem num_preds_num_succ_cardinality:
  "(card (\<Union>BB \<in> set (blocks L). set (predecessors BB)) < 2 ^ 31 \<longrightarrow>
      sint (num_preds (loop_locals L SE)) =
        int (card (\<Union>BB \<in> set (blocks L). set (predecessors BB))) \<and>
      0 \<le> sint (num_preds (loop_locals L SE))) \<and>
   (card (\<Union>BB \<in> set (blocks L). set (successors BB)) < 2 ^ 31 \<longrightarrow>
      sint (num_succ (loop_locals L SE)) =
        int (card (\<Union>BB \<in> set (blocks L). set (successors BB))) \<and>
      0 \<le> sint (num_succ (loop_locals L SE))) \<and>
   num_preds (loop_locals L SE) = num_unique_predicates (loop_locals L SE)"
proof -
  have p: "sint (num_preds (loop_locals L SE)) =
        int (card (\<Union>BB \<in> set (blocks L). set (predecessors BB))) \<and>
      0 \<le> sint (num_preds (loop_locals L SE))"
    if "card (\<Union>BB \<in> set (blocks L). set (predecessors BB)) < 2 ^ 31"
    using sint_of_nat_small [OF that] by (simp add: num_preds_word)
  have s: "sint (num_succ (loop_locals L SE)) =
        int (card (\<Union>BB \<in> set (blocks L). set (successors BB))) \<and>
      0 \<le> sint (num_succ (loop_locals L SE))"
    if "card (\<Union>BB \<in> set (blocks L). set (successors BB)) < 2 ^ 31"
    using sint_of_nat_small [OF that] by (simp add: num_preds_word)
  have e: "num_preds (loop_locals L SE) = num_unique_predicates (loop_locals L SE)"
    by (simp add: num_preds_word)
  from p s e show ?thesis
    by blast
qed

theorem num_preds_num_succ_cardinality_witness:
  "card (\<Union>BB \<in> set (blocks ex_inner). set (predecessors BB)) = 2 \<and>
   card (\<Union>BB \<in> set (blocks ex_inner). set (successors BB)) = 2 \<and>
   sint (num_preds (loop_locals ex_inner ex_SE)) = 2 \<and>
   sint (num_succ (loop_locals ex_inner ex_SE)) = 2 \<and>
   num_unique_predicates (loop_locals ex_inner ex_SE) = num_preds (loop_locals ex_inner ex_SE) \<and>
   \<not> contains ex_inner 1 \<and> 1 \<in> (\<Union>BB \<in> set (blocks ex_inner). set (predecessors BB))"
proof -
  have p: "(\<Union>BB \<in> set (blocks ex_inner). set (predecessors BB)) = {1, 2}"
    by (simp add: ex_inner_def ex_inner_header_def)
  have s: "(\<Union>BB \<in> set (blocks ex_inner). set (successors BB)) = {2, 3}"
    by (simp add: ex_inner_def ex_inner_header_def)
  have c: "\<not> contains ex_inner 1"
    by (simp add: contains_def ex_inner_def ex_inner_header_def)
  have cp: "card (\<Union>BB \<in> set (blocks ex_inner). set (predecessors BB)) = 2"
    by (simp add: p)
  have cs: "card (\<Union>BB \<in> set (blocks ex_inner). set (successors BB)) = 2"
    by (simp add: s)
  note inst = num_preds_num_succ_cardinality [of ex_inner ex_SE]
  from inst have ipred:
    "card (\<Union>BB \<in> set (blocks ex_inner). set (predecessors BB)) < 2 ^ 31 \<longrightarrow>
       sint (num_preds (loop_locals ex_inner ex_SE)) =
         int (card (\<Union>BB \<in> set (blocks ex_inner). set (predecessors BB))) \<and>
       0 \<le> sint (num_preds (loop_locals ex_inner ex_SE))"
    by (rule conjunct1)
  from inst have isucc:
    "card (\<Union>BB \<in> set (blocks ex_inner). set (successors BB)) < 2 ^ 31 \<longrightarrow>
       sint (num_succ (loop_locals ex_inner ex_SE)) =
         int (card (\<Union>BB \<in> set (blocks ex_inner). set (successors BB))) \<and>
       0 \<le> sint (num_succ (loop_locals ex_inner ex_SE))"
    by (rule conjunct1 [OF conjunct2])
  from ipred cp have np: "sint (num_preds (loop_locals ex_inner ex_SE)) = 2"
    by simp
  from isucc cs have ns: "sint (num_succ (loop_locals ex_inner ex_SE)) = 2"
    by simp
  from inst have eq:
    "num_unique_predicates (loop_locals ex_inner ex_SE) = num_preds (loop_locals ex_inner ex_SE)"
    by (rule sym [OF conjunct2 [OF conjunct2]])
  have m: "1 \<in> (\<Union>BB \<in> set (blocks ex_inner). set (predecessors BB))"
    by (simp add: p)
  show ?thesis
    by (rule conjI [OF cp conjI [OF cs conjI [OF np conjI [OF ns conjI [OF eq conjI [OF c m]]]]]])
qed

section \<open>Branch count and branch flags\<close>

lemma branch_count_positive:
  "(0 < (\<Sum>BB \<leftarrow> bs. length (filter P (insts BB)))) =
     (\<exists>BB \<in> set bs. \<exists>I \<in> set (insts BB). P I)"
proof (induction bs)
  case Nil
  show ?case by simp
next
  case (Cons b bs)
  have "(0 < length (filter P (insts b))) = (\<exists>I \<in> set (insts b). P I)"
    by (simp add: filter_empty_conv)
  with Cons.IH show ?case
    by auto
qed

lemma show_flag_one: "(show_flag b = ''1'') = b"
  by (cases b) (simp_all add: show_flag_def show_int_def show_nat.simps digit_char_def)

lemma nums_branchs_word:
  "nums_branchs (loop_locals L SE) =
     of_nat (\<Sum>BB \<leftarrow> blocks L. length (filter isa_BranchInst (insts BB)))"
  by (simp add: loop_locals_fields fold_visit_block_branch initial_locals_fields)

lemma ends_with_branch_count:
  "ends_with_branch (loop_locals L SE) =
     (0 < (\<Sum>BB \<leftarrow> blocks L. length (filter isa_BranchInst (insts BB))))"
  by (simp add: loop_locals_fields fold_visit_block_branch initial_locals_fields
        branch_count_positive)

lemma ex_br_is_branch: "isa_BranchInst ex_br" "isa_BranchInst ex_cond_br"
  by (simp_all add: isa_BranchInst_def ex_br_def ex_cond_br_def)

lemma ex_br_block_branches:
  "length (filter isa_BranchInst (insts (ex_br_block i))) = Suc 0"
  by (simp add: ex_br_block_def ex_br_is_branch)

lemma ex_many_blocks_branches:
  "(\<Sum>BB \<leftarrow> ex_many_blocks. length (filter isa_BranchInst (insts BB))) = ex_many"
proof -
  have "(\<Sum>BB \<leftarrow> ex_many_blocks. length (filter isa_BranchInst (insts BB))) =
      (\<Sum>i \<leftarrow> [0..<ex_many]. Suc 0)"
    by (simp add: ex_many_blocks_def ex_br_block_branches comp_def)
  also have "\<dots> = ex_many"
    by (simp add: sum_list_triv)
  finally show ?thesis .
qed

lemma ex_many_loop_blocks: "blocks ex_many_loop = ex_many_blocks"
  by (simp add: ex_many_loop_def)

text \<open>
  C10, as stated: in every row \<open>ends_with_branch\<close> is 1 exactly when \<open>nums_branchs\<close>
  is at least 1. \<open>nums_branchs\<close> is an \<^verbatim>\<open>int\<close>: in a loop of \<open>2^31\<close> blocks that each
  end in a branch, \<open>ends_with_branch\<close> is set and \<open>nums_branchs\<close> is
  \<open>-2147483648\<close>.
\<close>

theorem nums_branchs_wraps_at_2_31:
  "ends_with_branch (loop_locals ex_many_loop ex_SE) \<and>
   sint (nums_branchs (loop_locals ex_many_loop ex_SE)) = - 2147483648 \<and>
   \<not> 1 \<le> sint (nums_branchs (loop_locals ex_many_loop ex_SE))"
proof -
  have n: "(\<Sum>BB \<leftarrow> blocks ex_many_loop. length (filter isa_BranchInst (insts BB))) = ex_many"
    by (simp only: ex_many_loop_blocks ex_many_blocks_branches)
  have "0 < ex_many"
    by (simp add: ex_many_def)
  then have a: "ends_with_branch (loop_locals ex_many_loop ex_SE)"
    by (simp only: ends_with_branch_count n)
  have "nums_branchs (loop_locals ex_many_loop ex_SE) = of_nat ex_many"
    by (simp only: nums_branchs_word n)
  then have b: "sint (nums_branchs (loop_locals ex_many_loop ex_SE)) = - 2147483648"
    by (simp only: sint_of_nat_ex_many)
  from b have c: "\<not> 1 \<le> sint (nums_branchs (loop_locals ex_many_loop ex_SE))"
    by simp
  show ?thesis
    by (rule conjI [OF a conjI [OF b c]])
qed

text \<open>
  C10, as the code has it. In every row of a loop that holds fewer than \<open>2^31\<close> branch
  instructions, \<open>ends_with_branch\<close> is 1 exactly when \<open>nums_branchs\<close> is at least 1. In
  every row, \<open>ends_with_cond_branch\<close> equal to 1 implies \<open>ends_with_branch\<close> equal to 1.
\<close>

theorem branch_flags_consistent:
  "((\<Sum>BB \<leftarrow> blocks L. length (filter isa_BranchInst (insts BB))) < 2 ^ 31 \<longrightarrow>
      ends_with_branch (loop_locals L SE) = (1 \<le> sint (nums_branchs (loop_locals L SE))) \<and>
      (show_flag (ends_with_branch (loop_locals L SE)) = ''1'') =
        (1 \<le> sint (nums_branchs (loop_locals L SE)))) \<and>
   (ends_with_cond_branch (loop_locals L SE) \<longrightarrow> ends_with_branch (loop_locals L SE)) \<and>
   (show_flag (ends_with_cond_branch (loop_locals L SE)) = ''1'' \<longrightarrow>
      show_flag (ends_with_branch (loop_locals L SE)) = ''1'')"
proof -
  have count: "ends_with_branch (loop_locals L SE) =
      (1 \<le> sint (nums_branchs (loop_locals L SE)))"
    if "(\<Sum>BB \<leftarrow> blocks L. length (filter isa_BranchInst (insts BB))) < 2 ^ 31"
    using sint_of_nat_small [OF that]
    by (simp add: nums_branchs_word ends_with_branch_count) linarith
  have cond: "ends_with_cond_branch (loop_locals L SE) \<longrightarrow> ends_with_branch (loop_locals L SE)"
    by (auto simp add: loop_locals_fields fold_visit_block_branch initial_locals_fields)
  from count cond show ?thesis
    by (simp add: show_flag_one)
qed

theorem branch_flags_consistent_witness:
  "(\<Sum>BB \<leftarrow> blocks ex_inner. length (filter isa_BranchInst (insts BB))) = 1 \<and>
   ends_with_cond_branch (loop_locals ex_inner ex_SE) \<and>
   ends_with_branch (loop_locals ex_inner ex_SE) \<and>
   1 \<le> sint (nums_branchs (loop_locals ex_inner ex_SE)) \<and>
   show_flag (ends_with_branch (loop_locals ex_inner ex_SE)) = ''1''"
proof -
  have n: "(\<Sum>BB \<leftarrow> blocks ex_inner. length (filter isa_BranchInst (insts BB))) = 1"
    by (simp add: ex_inner_def ex_inner_header_def ex_load_def ex_store_def ex_cond_br_def
          isa_BranchInst_def)
  have "\<exists>BB \<in> set (blocks ex_inner). \<exists>I \<in> set (insts BB). isa_BranchInst I \<and> isConditional I"
    by (simp add: ex_inner_def ex_inner_header_def ex_cond_br_def isa_BranchInst_def
          isConditional_def)
  then have c: "ends_with_cond_branch (loop_locals ex_inner ex_SE)"
    by (simp add: loop_locals_fields fold_visit_block_branch initial_locals_fields)
  note inst = branch_flags_consistent [of ex_inner ex_SE]
  from inst c have b: "ends_with_branch (loop_locals ex_inner ex_SE)"
    by blast
  from inst n b have g: "1 \<le> sint (nums_branchs (loop_locals ex_inner ex_SE))"
    by simp
  from b have f: "show_flag (ends_with_branch (loop_locals ex_inner ex_SE)) = ''1''"
    by (simp add: show_flag_one)
  show ?thesis
    by (rule conjI [OF n conjI [OF c conjI [OF b conjI [OF g f]]]])
qed

section \<open>The columns of a row\<close>

lemma header_line_columns:
  "csv_fields header_line =
     [''CodeID'', ''Function'', ''LoopHeader'', ''num_instr'', ''num_phis'', ''num_calls'',
      ''num_preds'', ''num_succ'', ''ends_with_unreachable'', ''ends_with_return'',
      ''ends_with_cond_branch'', ''ends_with_branch'', ''num_float_ops'', ''nums_branchs'',
      ''num_operands'', ''num_memory_ops'', ''num_unique_predicates'', ''trip_count'',
      ''num_uses'', ''num_blocks_in_lp'', ''loop_depth'']"
  by (simp add: header_line_def)

lemma digit_char_digit:
  assumes "d < 10"
  shows "digit_char d \<in> set ''0123456789''"
proof -
  have "''0123456789'' ! d \<in> set ''0123456789''"
    using assms by (intro nth_mem) simp
  then show ?thesis
    by (simp only: digit_char_def)
qed

lemma show_nat_digits: "set (show_nat n) \<subseteq> set ''0123456789''"
proof (induction n rule: show_nat.induct)
  case (1 n)
  show ?case
  proof (cases "n < 10")
    case True
    then have "show_nat n = [digit_char n]"
      by (simp add: show_nat.simps)
    with True digit_char_digit [of n] show ?thesis
      by simp
  next
    case False
    then have eq: "show_nat n = show_nat (n div 10) @ [digit_char (n mod 10)]"
      by (subst show_nat.simps) simp
    have "digit_char (n mod 10) \<in> set ''0123456789''"
      by (rule digit_char_digit) simp
    with "1.IH" [OF False] show ?thesis
      unfolding eq by simp
  qed
qed

lemma show_int_chars: "set (show_int i) \<subseteq> insert CHR ''-'' (set ''0123456789'')"
proof (cases "i < 0")
  case True
  then have "set (show_int i) = insert CHR ''-'' (set (show_nat (nat (- i))))"
    by (simp add: show_int_def)
  moreover have "insert CHR ''-'' (set (show_nat (nat (- i)))) \<subseteq>
      insert CHR ''-'' (set ''0123456789'')"
    by (rule insert_mono) (rule show_nat_digits)
  ultimately show ?thesis
    by (simp only:)
next
  case False
  then have "set (show_int i) = set (show_nat (nat i))"
    by (simp add: show_int_def)
  moreover have "set (show_nat (nat i)) \<subseteq> insert CHR ''-'' (set ''0123456789'')"
    by (rule subset_insertI2) (rule show_nat_digits)
  ultimately show ?thesis
    by (simp only:)
qed

lemma show_nat_no_separator:
  "CHR '','' \<notin> set (show_nat n)" "CHR 0x0A \<notin> set (show_nat n)"
  using show_nat_digits [of n] by auto

lemma show_int_no_separator:
  "CHR '','' \<notin> set (show_int i)" "CHR 0x0A \<notin> set (show_int i)"
  using show_int_chars [of i] by auto

lemma show_flag_values: "show_flag True = ''1''" "show_flag False = ''0''"
  by (simp_all add: show_flag_def show_int_def show_nat.simps digit_char_def)

lemma show_flag_no_separator:
  "CHR '','' \<notin> set (show_flag b)" "CHR 0x0A \<notin> set (show_flag b)"
  by (simp_all add: show_flag_def show_int_no_separator)

lemma csv_fields_single:
  assumes "CHR '','' \<notin> set s"
  shows "csv_fields s = [s]"
  using assms by (induction s) auto

lemma csv_fields_append:
  assumes "CHR '','' \<notin> set a"
  shows "csv_fields (a @ CHR '','' # rest) = a # csv_fields rest"
  using assms by (induction a) (auto split: list.splits)

lemma join_commas_Cons:
  "join_commas (c # d # cs) = c @ CHR '','' # join_commas (d # cs)"
  by (simp add: join_commas_def)

lemma csv_fields_join_commas:
  assumes "\<And>c. c \<in> set cols \<Longrightarrow> CHR '','' \<notin> set c" and "cols \<noteq> []"
  shows "csv_fields (join_commas cols) = cols"
  using assms
proof (induction cols rule: induct_list012)
  case 1
  then show ?case by simp
next
  case (2 c)
  then show ?case
    by (simp add: join_commas_def csv_fields_single)
next
  case (3 c d cs)
  have "csv_fields (join_commas (c # d # cs)) = c # csv_fields (join_commas (d # cs))"
    using "3.prems"(1) [of c] by (simp add: join_commas_Cons csv_fields_append)
  also have "csv_fields (join_commas (d # cs)) = d # cs"
    using "3.prems"(1) by (intro "3.IH") simp_all
  finally show ?case .
qed

lemma newline_not_in_join_commas:
  assumes "\<And>c. c \<in> set cols \<Longrightarrow> CHR 0x0A \<notin> set c"
  shows "CHR 0x0A \<notin> set (join_commas cols)"
  using assms
proof (induction cols rule: induct_list012)
  case 1
  show ?case by (simp add: join_commas_def)
next
  case (2 c)
  then show ?case by (simp add: join_commas_def)
next
  case (3 c d cs)
  have "CHR 0x0A \<notin> set (join_commas (d # cs))"
    using "3.prems" by (intro "3.IH") simp_all
  with "3.prems" [of c] show ?case
    by (simp add: join_commas_Cons)
qed

lemma output_row_join:
  "output_row CodeID FuncName HeaderName a depth =
     join_commas (output_columns CodeID FuncName HeaderName a depth) @ [CHR 0x0A]"
  by (simp add: output_row_def output_columns_def join_commas_def)

lemma output_columns_no_comma:
  assumes "CHR '','' \<notin> set FuncName" and "CHR '','' \<notin> set HeaderName"
    and "c \<in> set (output_columns CodeID FuncName HeaderName a depth)"
  shows "CHR '','' \<notin> set c"
  using assms
  by (auto simp: output_columns_def show_nat_no_separator show_int_no_separator
        show_flag_no_separator)

lemma output_columns_no_newline:
  assumes "CHR 0x0A \<notin> set FuncName" and "CHR 0x0A \<notin> set HeaderName"
    and "c \<in> set (output_columns CodeID FuncName HeaderName a depth)"
  shows "CHR 0x0A \<notin> set c"
  using assms
  by (auto simp: output_columns_def show_nat_no_separator show_int_no_separator
        show_flag_no_separator)

text \<open>
  C3, as the code has it. A row is one line of 21 comma-separated columns in the order
  of the header: CodeID, Function, LoopHeader, num_instr, num_phis, num_calls, num_preds,
  num_succ, ends_with_unreachable, ends_with_return, ends_with_cond_branch,
  ends_with_branch, num_float_ops, nums_branchs, num_operands, num_memory_ops,
  num_unique_predicates, trip_count, num_uses, num_blocks_in_lp, loop_depth. Booleans are
  written as 1 and 0. The names are written as they are, so the columns can be read back
  when the function name and the header name hold no comma and no line break.
\<close>

theorem output_row_header_order:
  assumes "CHR '','' \<notin> set FuncName" and "CHR '','' \<notin> set HeaderName"
    and "CHR 0x0A \<notin> set FuncName" and "CHR 0x0A \<notin> set HeaderName"
  shows "output_row CodeID FuncName HeaderName a depth =
           join_commas (output_columns CodeID FuncName HeaderName a depth) @ [CHR 0x0A] \<and>
         CHR 0x0A \<notin> set (join_commas (output_columns CodeID FuncName HeaderName a depth)) \<and>
         csv_fields (join_commas (output_columns CodeID FuncName HeaderName a depth)) =
           output_columns CodeID FuncName HeaderName a depth \<and>
         zip (csv_fields header_line) (output_columns CodeID FuncName HeaderName a depth) =
           [(''CodeID'', show_nat (unat CodeID)), (''Function'', FuncName),
            (''LoopHeader'', HeaderName), (''num_instr'', show_int (sint (num_instr a))),
            (''num_phis'', show_int (sint (num_phis a))), (''num_calls'', show_int (sint (num_calls a))),
            (''num_preds'', show_int (sint (num_preds a))), (''num_succ'', show_int (sint (num_succ a))),
            (''ends_with_unreachable'', if ends_with_unreachable a then ''1'' else ''0''),
            (''ends_with_return'', if ends_with_return a then ''1'' else ''0''),
            (''ends_with_cond_branch'', if ends_with_cond_branch a then ''1'' else ''0''),
            (''ends_with_branch'', if ends_with_branch a then ''1'' else ''0''),
            (''num_float_ops'', show_int (sint (num_float_ops a))),
            (''nums_branchs'', show_int (sint (nums_branchs a))),
            (''num_operands'', show_int (sint (num_operands a))),
            (''num_memory_ops'', show_int (sint (num_memory_ops a))),
            (''num_unique_predicates'', show_int (sint (num_unique_predicates a))),
            (''trip_count'', show_int (trip_count a)),
            (''num_uses'', show_int (sint (num_uses a))),
            (''num_blocks_in_lp'', show_int (sint (num_blocks_in_lp a))),
            (''loop_depth'', show_nat depth)]"
proof -
  have line: "output_row CodeID FuncName HeaderName a depth =
      join_commas (output_columns CodeID FuncName HeaderName a depth) @ [CHR 0x0A]"
    by (rule output_row_join)
  have one_line:
    "CHR 0x0A \<notin> set (join_commas (output_columns CodeID FuncName HeaderName a depth))"
    using assms(3,4) by (intro newline_not_in_join_commas) (rule output_columns_no_newline)
  have ne: "output_columns CodeID FuncName HeaderName a depth \<noteq> []"
    by (simp add: output_columns_def)
  have fields: "csv_fields (join_commas (output_columns CodeID FuncName HeaderName a depth)) =
      output_columns CodeID FuncName HeaderName a depth"
    using assms(1,2) ne by (intro csv_fields_join_commas) (rule output_columns_no_comma)
  have flag: "\<And>b. show_flag b = (if b then ''1'' else ''0'')"
    by (simp add: show_flag_values)
  have named: "zip (csv_fields header_line) (output_columns CodeID FuncName HeaderName a depth) =
           [(''CodeID'', show_nat (unat CodeID)), (''Function'', FuncName),
            (''LoopHeader'', HeaderName), (''num_instr'', show_int (sint (num_instr a))),
            (''num_phis'', show_int (sint (num_phis a))), (''num_calls'', show_int (sint (num_calls a))),
            (''num_preds'', show_int (sint (num_preds a))), (''num_succ'', show_int (sint (num_succ a))),
            (''ends_with_unreachable'', if ends_with_unreachable a then ''1'' else ''0''),
            (''ends_with_return'', if ends_with_return a then ''1'' else ''0''),
            (''ends_with_cond_branch'', if ends_with_cond_branch a then ''1'' else ''0''),
            (''ends_with_branch'', if ends_with_branch a then ''1'' else ''0''),
            (''num_float_ops'', show_int (sint (num_float_ops a))),
            (''nums_branchs'', show_int (sint (nums_branchs a))),
            (''num_operands'', show_int (sint (num_operands a))),
            (''num_memory_ops'', show_int (sint (num_memory_ops a))),
            (''num_unique_predicates'', show_int (sint (num_unique_predicates a))),
            (''trip_count'', show_int (trip_count a)),
            (''num_uses'', show_int (sint (num_uses a))),
            (''num_blocks_in_lp'', show_int (sint (num_blocks_in_lp a))),
            (''loop_depth'', show_nat depth)]"
    unfolding header_line_columns output_columns_def flag by simp
  show ?thesis
    by (rule conjI [OF line conjI [OF one_line conjI [OF fields named]]])
qed

section \<open>A worked example\<close>

lemma ex_inner_blocks:
  "fold (visit_block ex_inner) (blocks ex_inner) initial_locals =
     \<lparr>unique_preds = {2, 1}, unique_succs = {3, 2}, num_instr = 3, num_phis = 0,
      num_calls = 0, num_float_ops = 0, nums_branchs = 1, num_operands = 6,
      num_memory_ops = 2, num_uses = 1, num_blocks_in_lp = 1, num_unique_predicates = 0,
      ends_with_unreachable = False, ends_with_return = False,
      ends_with_cond_branch = True, ends_with_branch = True,
      num_preds = 0, num_succ = 0, trip_count = 0\<rparr>"
  by (simp add: ex_inner_def ex_inner_header_def ex_load_def ex_store_def ex_cond_br_def
        visit_block_def visit_inst_def visit_user_def contains_def getTerminator_def
        isTerminator_def isa_PHINode_def isa_CallBase_def isa_LoadInst_def isa_StoreInst_def
        isa_BranchInst_def isConditional_def isa_UnreachableInst_def isa_ReturnInst_def
        initial_locals_def Let_def)

lemma ex_inner_locals:
  "loop_locals ex_inner SE =
     \<lparr>unique_preds = {2, 1}, unique_succs = {3, 2}, num_instr = 3, num_phis = 0,
      num_calls = 0, num_float_ops = 0, nums_branchs = 1, num_operands = 6,
      num_memory_ops = 2, num_uses = 1, num_blocks_in_lp = 1, num_unique_predicates = 2,
      ends_with_unreachable = False, ends_with_return = False,
      ends_with_cond_branch = True, ends_with_branch = True,
      num_preds = 2, num_succ = 2, trip_count = compute_trip_count (SE ex_inner)\<rparr>"
  by (simp add: loop_locals_def ex_inner_blocks Let_def)

lemma ex_inner_trip_count: "compute_trip_count (ex_SE ex_inner) = 10"
  by (simp add: ex_SE_def ex_inner_def compute_trip_count_def)

lemma ex_inner_header_depth:
  "BB_getName (getHeader ex_inner) = ''for.body''" "getLoopDepth ex_inner = 2"
  by (simp_all add: ex_inner_def ex_inner_header_def)

lemma show_small:
  "show_int 0 = ''0''" "show_int 1 = ''1''" "show_int 2 = ''2''" "show_int 3 = ''3''"
  "show_int 6 = ''6''" "show_int 10 = ''10''" "show_nat 2 = ''2''" "show_nat 41 = ''41''"
  "show_int (- 9223372036854775808) = ''-9223372036854775808''"
  by (simp_all add: show_int_def show_nat.simps digit_char_def)

lemma ex_inner_row:
  "output_row 41 ''main'' ''for.body'' (loop_locals ex_inner ex_SE) 2 =
     ''41,main,for.body,3,0,0,2,2,0,0,1,1,0,1,6,2,2,10,1,1,2'' @ [CHR 0x0A]"
  by (simp add: ex_inner_locals ex_inner_trip_count output_row_def show_flag_def show_small)

lemma ex_inner_spec_columns:
  "join_commas (spec_section_4_2_columns 41 ''main'' ''for.body'' (loop_locals ex_inner ex_SE) 2) =
     ''41,main,for.body,3,0,0,2,1,1,1,0,0,0,6,2,2,1,10,1,2''"
  by (simp add: ex_inner_locals ex_inner_trip_count spec_section_4_2_columns_def
        join_commas_def show_flag_def show_small)

text \<open>
  C3, as stated: the row is the three keys followed by the metrics in the order of
  section 4.2 of the specification. For the inner loop of the example the code writes
  \<open>num_preds\<close> (2) and \<open>num_succ\<close> (2) after \<open>num_calls\<close>, where that order has
  \<open>num_memory_ops\<close> (2) and \<open>nums_branchs\<close> (1), and it writes 21 columns, not 20.
\<close>

theorem output_row_not_in_section_4_2_order:
  "output_row 41 ''main'' ''for.body'' (loop_locals ex_inner ex_SE) 2 =
     ''41,main,for.body,3,0,0,2,2,0,0,1,1,0,1,6,2,2,10,1,1,2'' @ [CHR 0x0A] \<and>
   join_commas (spec_section_4_2_columns 41 ''main'' ''for.body'' (loop_locals ex_inner ex_SE) 2)
     @ [CHR 0x0A] =
     ''41,main,for.body,3,0,0,2,1,1,1,0,0,0,6,2,2,1,10,1,2'' @ [CHR 0x0A] \<and>
   output_row 41 ''main'' ''for.body'' (loop_locals ex_inner ex_SE) 2 \<noteq>
     join_commas (spec_section_4_2_columns 41 ''main'' ''for.body'' (loop_locals ex_inner ex_SE) 2)
       @ [CHR 0x0A]"
  by (simp add: ex_inner_row ex_inner_spec_columns)

theorem output_row_header_order_witness:
  "csv_fields (join_commas (output_columns 41 ''main'' ''for.body'' (loop_locals ex_inner ex_SE) 2)) =
     output_columns 41 ''main'' ''for.body'' (loop_locals ex_inner ex_SE) 2 \<and>
   output_row 41 ''main'' ''for.body'' (loop_locals ex_inner ex_SE) 2 =
     join_commas (output_columns 41 ''main'' ''for.body'' (loop_locals ex_inner ex_SE) 2)
       @ [CHR 0x0A] \<and>
   output_row 41 ''main'' ''for.body'' (loop_locals ex_inner ex_SE) 2 =
     ''41,main,for.body,3,0,0,2,2,0,0,1,1,0,1,6,2,2,10,1,1,2'' @ [CHR 0x0A]"
proof -
  have names: "CHR '','' \<notin> set ''main''" "CHR '','' \<notin> set ''for.body''"
    "CHR 0x0A \<notin> set ''main''" "CHR 0x0A \<notin> set ''for.body''"
    by simp_all
  note inst = output_row_header_order [OF names, of 41 "loop_locals ex_inner ex_SE" 2]
  from inst have a:
    "csv_fields (join_commas (output_columns 41 ''main'' ''for.body'' (loop_locals ex_inner ex_SE) 2)) =
       output_columns 41 ''main'' ''for.body'' (loop_locals ex_inner ex_SE) 2"
    by blast
  from inst have b: "output_row 41 ''main'' ''for.body'' (loop_locals ex_inner ex_SE) 2 =
      join_commas (output_columns 41 ''main'' ''for.body'' (loop_locals ex_inner ex_SE) 2)
        @ [CHR 0x0A]"
    by blast
  show ?thesis
    by (rule conjI [OF a conjI [OF b ex_inner_row]])
qed

section \<open>The trip count\<close>

lemma compute_trip_count_in_range:
  assumes "uint c < 2 ^ 63 - 1"
  shows "compute_trip_count (Some (SCEVConstant c)) = uint c + 1"
proof -
  have nonneg: "0 \<le> uint c"
    by simp
  have "uint (c + 1) = (uint c + uint (1 :: 64 word)) mod 2 ^ LENGTH(64)"
    by (rule uint_word_ariths)
  also have "\<dots> = (uint c + 1) mod 2 ^ 64"
    by simp
  also have "\<dots> = uint c + 1"
    using assms nonneg by (intro mod_pos_pos_trivial) simp_all
  finally have sum: "uint (c + 1) = uint c + 1" .
  have "sint (c + 1) = signed_take_bit 63 (uint (c + 1))"
    by (simp add: sint_uint)
  also have "\<dots> = signed_take_bit 63 (uint c + 1)"
    by (simp only: sum)
  also have "\<dots> = uint c + 1"
    using assms nonneg by (intro signed_take_bit_int_eq_self) simp_all
  finally show ?thesis
    by (simp add: compute_trip_count_def)
qed

lemma compute_trip_count_not_constant:
  "compute_trip_count None = 0"
  "compute_trip_count (Some SCEVCouldNotCompute) = 0"
  "compute_trip_count (Some SCEVNotConstant) = 0"
  by (simp_all add: compute_trip_count_def)

text \<open>
  C1 says that a constant backedge-taken count \<open>c\<close> gives the trip count \<open>c + 1\<close>, never
  a negative one. The code adds 1 in unsigned 64-bit arithmetic and stores the sum in an
  \<^verbatim>\<open>int64_t\<close>: for the count \<open>2^63 - 1\<close> the row holds \<open>-9223372036854775808\<close>, and
  for \<open>2^64 - 1\<close> it holds 0, the value kept for an unknown bound.
\<close>

theorem trip_count_wraps_negative:
  "trip_count (loop_locals ex_inner (\<lambda>L. Some (SCEVConstant 9223372036854775807))) =
     - 9223372036854775808 \<and>
   loop_row ex_inner (\<lambda>L. Some (SCEVConstant 9223372036854775807)) ''main'' 41 =
     ''41,main,for.body,3,0,0,2,2,0,0,1,1,0,1,6,2,2,-9223372036854775808,1,1,2'' @ [CHR 0x0A] \<and>
   trip_count (loop_locals ex_inner (\<lambda>L. Some (SCEVConstant 18446744073709551615))) = 0"
proof -
  have a: "trip_count (loop_locals ex_inner (\<lambda>L. Some (SCEVConstant 9223372036854775807))) =
      - 9223372036854775808"
    by (simp add: loop_locals_fields compute_trip_count_def)
  have b: "loop_row ex_inner (\<lambda>L. Some (SCEVConstant 9223372036854775807)) ''main'' 41 =
      ''41,main,for.body,3,0,0,2,2,0,0,1,1,0,1,6,2,2,-9223372036854775808,1,1,2'' @ [CHR 0x0A]"
    by (simp add: loop_row_def ex_inner_locals ex_inner_header_depth compute_trip_count_def
          output_row_def show_flag_def show_small)
  have c: "trip_count (loop_locals ex_inner (\<lambda>L. Some (SCEVConstant 18446744073709551615))) = 0"
    by (simp add: loop_locals_fields compute_trip_count_def)
  show ?thesis
    by (rule conjI [OF a conjI [OF b c]])
qed

section \<open>The rows of the example function\<close>

lemma show_more:
  "show_int 4 = ''4''" "show_int 12 = ''12''" "show_nat (Suc 0) = ''1''"
  by (simp_all add: show_int_def show_nat.simps digit_char_def)

lemma ex_outer_header_depth:
  "BB_getName (getHeader ex_outer) = ''for.cond''" "getLoopDepth ex_outer = 1"
  by (simp_all add: ex_outer_def ex_header_def)

lemma ex_outer_blocks:
  "fold (visit_block ex_outer) (blocks ex_outer) initial_locals =
     \<lparr>unique_preds = {2, 1, 3, 0}, unique_succs = {1, 3, 7, 2}, num_instr = 6, num_phis = 1,
      num_calls = 0, num_float_ops = 0, nums_branchs = 3, num_operands = 12,
      num_memory_ops = 2, num_uses = 3, num_blocks_in_lp = 3, num_unique_predicates = 0,
      ends_with_unreachable = False, ends_with_return = False,
      ends_with_cond_branch = True, ends_with_branch = True,
      num_preds = 0, num_succ = 0, trip_count = 0\<rparr>"
  by (simp add: ex_outer_def ex_header_def ex_inner_header_def ex_latch_def ex_phi_def
        ex_br_def ex_load_def ex_store_def ex_cond_br_def
        visit_block_def visit_inst_def visit_user_def contains_def getTerminator_def
        isTerminator_def isa_PHINode_def isa_CallBase_def isa_LoadInst_def isa_StoreInst_def
        isa_BranchInst_def isConditional_def isa_UnreachableInst_def isa_ReturnInst_def
        initial_locals_def Let_def insert_commute)

lemma ex_outer_locals:
  "loop_locals ex_outer SE =
     \<lparr>unique_preds = {2, 1, 3, 0}, unique_succs = {1, 3, 7, 2}, num_instr = 6, num_phis = 1,
      num_calls = 0, num_float_ops = 0, nums_branchs = 3, num_operands = 12,
      num_memory_ops = 2, num_uses = 3, num_blocks_in_lp = 3, num_unique_predicates = 4,
      ends_with_unreachable = False, ends_with_return = False,
      ends_with_cond_branch = True, ends_with_branch = True,
      num_preds = 4, num_succ = 4, trip_count = compute_trip_count (SE ex_outer)\<rparr>"
  by (simp add: loop_locals_def ex_outer_blocks Let_def)

lemma ex_outer_trip_count: "compute_trip_count (ex_SE ex_outer) = 0"
  by (simp add: ex_SE_def ex_outer_def compute_trip_count_def)

lemma ex_outer_loop_row:
  "loop_row ex_outer ex_SE ''main'' 41 =
     ''41,main,for.cond,6,1,0,4,4,0,0,1,1,0,3,12,2,4,0,3,3,1'' @ [CHR 0x0A]"
  by (simp add: loop_row_def ex_outer_locals ex_outer_trip_count ex_outer_header_depth
        output_row_def show_flag_def show_small show_more)

lemma ex_inner_loop_row:
  "loop_row ex_inner ex_SE ''main'' 41 =
     ''41,main,for.body,3,0,0,2,2,0,0,1,1,0,1,6,2,2,10,1,1,2'' @ [CHR 0x0A]"
  by (simp add: loop_row_def ex_inner_header_depth ex_inner_row)

lemma ex_outer_preorder: "loops_preorder ex_outer = [ex_outer, ex_inner]"
  by (simp add: ex_outer_def ex_inner_def)

lemma ex_main_rows:
  "concat (function_rows 41 ex_main) =
     ''41,main,for.cond,6,1,0,4,4,0,0,1,1,0,3,12,2,4,0,3,3,1'' @ [CHR 0x0A] @
     ''41,main,for.body,3,0,0,2,2,0,0,1,1,0,1,6,2,2,10,1,1,2'' @ [CHR 0x0A]"
proof -
  have "function_rows 41 ex_main = loop_rows ex_outer ex_SE ''main'' 41"
    by (simp add: function_rows_def ex_main_def)
  also have "\<dots> = [loop_row ex_outer ex_SE ''main'' 41, loop_row ex_inner ex_SE ''main'' 41]"
    by (simp add: loop_rows_def ex_outer_preorder)
  finally show ?thesis
    by (simp add: ex_outer_loop_row ex_inner_loop_row)
qed

lemma ex_other_rows:
  "function_rows 41 ex_printf = []" "function_rows 41 ex_straight = []"
  by (simp_all add: function_rows_def ex_printf_def ex_straight_def)

lemma ex_started:
  "OutFile_is_open (constructor (new_process ex_env))"
  "loop_features_csv (constructor (new_process ex_env)) = header_line @ [CHR 0x0A]"
  by (simp_all add: constructor_def initializeCodeIDCounter_def initializeOutFile_def
        new_process_def ex_env_def write_OutFile_def Let_def)

section \<open>The rows written to the dataset\<close>

lemma write_OutFile_append: "write_OutFile t (write_OutFile s w) = write_OutFile (s @ t) w"
  by (simp add: write_OutFile_def)

lemma write_OutFile_Nil: "write_OutFile [] w = w"
  by (simp add: write_OutFile_def)

lemma fold_write_OutFile:
  assumes "\<And>x w. x \<in> set xs \<Longrightarrow> f x w = write_OutFile (g x) w"
  shows "fold f xs w = write_OutFile (concat (map g xs)) w"
  using assms
proof (induction xs arbitrary: w)
  case Nil
  show ?case by (simp add: write_OutFile_Nil)
next
  case (Cons x xs)
  have "fold f (x # xs) w = fold f xs (write_OutFile (g x) w)"
    using Cons.prems by simp
  also have "\<dots> = write_OutFile (concat (map g xs)) (write_OutFile (g x) w)"
    using Cons.IH Cons.prems by simp
  finally show ?case
    by (simp add: write_OutFile_append)
qed

lemma concat_map_concat:
  "concat (map f (concat xss)) = concat (map (\<lambda>xs. concat (map f xs)) xss)"
  by (induction xss) simp_all

lemma concat_concat_map:
  "concat (concat (map f xs)) = concat (map (\<lambda>x. concat (f x)) xs)"
  by (induction xs) simp_all

lemma analyzeLoop_writes:
  "analyzeLoop L SE FuncName CodeID w =
     write_OutFile (concat (loop_rows L SE FuncName CodeID)) w"
proof (induction L arbitrary: w)
  case (Loop Header bs depth subs)
  have sub: "\<And>S w'. S \<in> set subs \<Longrightarrow>
      analyzeLoop S SE FuncName CodeID w' =
        write_OutFile (concat (loop_rows S SE FuncName CodeID)) w'"
    using Loop.IH by simp
  have "analyzeLoop (Loop Header bs depth subs) SE FuncName CodeID w =
          fold (\<lambda>S w'. analyzeLoop S SE FuncName CodeID w') subs
            (write_OutFile (loop_row (Loop Header bs depth subs) SE FuncName CodeID) w)"
    by (simp add: loop_row_def)
  also have "\<dots> =
      write_OutFile (concat (map (\<lambda>S. concat (loop_rows S SE FuncName CodeID)) subs))
        (write_OutFile (loop_row (Loop Header bs depth subs) SE FuncName CodeID) w)"
    using sub by (rule fold_write_OutFile)
  also have "\<dots> =
      write_OutFile (concat (loop_rows (Loop Header bs depth subs) SE FuncName CodeID)) w"
    by (simp add: write_OutFile_append loop_rows_def concat_map_concat comp_def)
  finally show ?case .
qed

lemma run_function_writes:
  "run_function CodeID F w = write_OutFile (concat (function_rows CodeID F)) w"
proof (cases "isDeclaration F")
  case True
  then show ?thesis
    by (simp add: run_function_def function_rows_def write_OutFile_Nil)
next
  case False
  have "fold (\<lambda>L w'. analyzeLoop L (F_ScalarEvolution F) (F_getName F) CodeID w')
          (F_LoopInfo F) w =
        write_OutFile
          (concat (map (\<lambda>L. concat (loop_rows L (F_ScalarEvolution F) (F_getName F) CodeID))
             (F_LoopInfo F))) w"
    by (rule fold_write_OutFile) (rule analyzeLoop_writes)
  with False show ?thesis
    by (simp add: run_function_def function_rows_def concat_concat_map)
qed

lemma fold_run_function_writes:
  "fold (run_function CodeID) M w = write_OutFile (concat (module_rows CodeID M)) w"
proof -
  have "fold (run_function CodeID) M w =
          write_OutFile (concat (map (\<lambda>F. concat (function_rows CodeID F)) M)) w"
    by (rule fold_write_OutFile) (rule run_function_writes)
  then show ?thesis
    by (simp add: module_rows_def concat_concat_map)
qed

lemma run_first:
  assumes "CurrentCodeID w = None"
  shows "run M w =
     write_OutFile (concat (module_rows (CodeIDCounter w) M))
       (w\<lparr>CurrentCodeID := Some (CodeIDCounter w), CodeIDCounter := CodeIDCounter w + 1\<rparr>)"
  using assms by (simp add: run_def init_CurrentCodeID_def fold_run_function_writes)

lemma run_later:
  assumes "CurrentCodeID w = Some c"
  shows "run M w = write_OutFile (concat (module_rows c M)) w"
  using assms by (simp add: run_def init_CurrentCodeID_def fold_run_function_writes)

lemma write_OutFile_fields:
  "CurrentCodeID (write_OutFile s w) = CurrentCodeID w"
  "CodeIDCounter (write_OutFile s w) = CodeIDCounter w"
  "OutFile_is_open (write_OutFile s w) = OutFile_is_open w"
  "initialized (write_OutFile s w) = initialized w"
  "code_id_txt (write_OutFile s w) = code_id_txt w"
  "code_id_can_write (write_OutFile s w) = code_id_can_write w"
  "csv_can_open (write_OutFile s w) = csv_can_open w"
  "csv_can_read (write_OutFile s w) = csv_can_read w"
  "loop_features_csv (write_OutFile s w) =
     (if OutFile_is_open w then loop_features_csv w @ s else loop_features_csv w)"
  by (simp_all add: write_OutFile_def)

lemma fold_run_later:
  assumes "CurrentCodeID w = Some c"
  shows "fold run Ms w = write_OutFile (concat (concat (map (module_rows c) Ms))) w"
  using assms
proof (induction Ms arbitrary: w)
  case Nil
  show ?case by (simp add: write_OutFile_Nil)
next
  case (Cons M Ms)
  have step: "run M w = write_OutFile (concat (module_rows c M)) w"
    using Cons.prems by (rule run_later)
  have "CurrentCodeID (run M w) = Some c"
    using Cons.prems by (simp add: step write_OutFile_fields)
  then have "fold run Ms (run M w) =
      write_OutFile (concat (concat (map (module_rows c) Ms))) (run M w)"
    by (rule Cons.IH)
  then show ?case
    by (simp add: step write_OutFile_append)
qed

lemma fold_run_first:
  assumes "CurrentCodeID w = None" and "Ms \<noteq> []"
  shows "fold run Ms w =
     write_OutFile (concat (concat (map (module_rows (CodeIDCounter w)) Ms)))
       (w\<lparr>CurrentCodeID := Some (CodeIDCounter w), CodeIDCounter := CodeIDCounter w + 1\<rparr>)"
proof (cases Ms)
  case Nil
  with assms show ?thesis by simp
next
  case (Cons M Ms')
  let ?w' = "w\<lparr>CurrentCodeID := Some (CodeIDCounter w), CodeIDCounter := CodeIDCounter w + 1\<rparr>"
  have step: "run M w = write_OutFile (concat (module_rows (CodeIDCounter w) M)) ?w'"
    using assms(1) by (rule run_first)
  have "CurrentCodeID (run M w) = Some (CodeIDCounter w)"
    by (simp add: step write_OutFile_fields)
  then have "fold run Ms' (run M w) =
      write_OutFile (concat (concat (map (module_rows (CodeIDCounter w)) Ms'))) (run M w)"
    by (rule fold_run_later)
  with Cons show ?thesis
    by (simp add: step write_OutFile_append)
qed

lemma constructor_fields:
  "CodeIDCounter (constructor w) = (case code_id_txt w of Some v \<Rightarrow> v | None \<Rightarrow> 0)"
  "CurrentCodeID (constructor w) = CurrentCodeID w"
  "code_id_can_write (constructor w) = code_id_can_write w"
  "code_id_txt (constructor w) = code_id_txt w"
  by (simp_all add: constructor_def initializeCodeIDCounter_def initializeOutFile_def
        write_OutFile_def Let_def split: option.splits)

lemma new_process_fields:
  "CurrentCodeID (new_process w) = None"
  "code_id_txt (new_process w) = code_id_txt w"
  "code_id_can_write (new_process w) = code_id_can_write w"
  "loop_features_csv (new_process w) = loop_features_csv w"
  "csv_can_open (new_process w) = csv_can_open w"
  "csv_can_read (new_process w) = csv_can_read w"
  "initialized (new_process w) = False"
  by (simp_all add: new_process_def)

lemma csv_first_field:
  assumes "CHR '','' \<notin> set a"
  shows "hd (csv_fields (a @ CHR '','' # rest)) = a"
  using assms by (simp add: csv_fields_append)

lemma loop_row_first_field:
  "hd (csv_fields (loop_row l SE FuncName CodeID)) = show_nat (unat CodeID)"
proof -
  have "\<exists>rest. loop_row l SE FuncName CodeID = show_nat (unat CodeID) @ CHR '','' # rest"
    by (simp add: loop_row_def output_row_def)
  then show ?thesis
    using csv_first_field [OF show_nat_no_separator(1)] by auto
qed

lemma module_rows_member:
  assumes "row \<in> set (module_rows CodeID M)"
  shows "\<exists>l SE FuncName. row = loop_row l SE FuncName CodeID"
  using assms
  by (auto simp: module_rows_def function_rows_def loop_rows_def split: if_splits)

lemma digit_value_digit_char:
  assumes "d < 10"
  shows "digit_value (digit_char d) = d"
proof -
  from assms have "d = 0 \<or> d = 1 \<or> d = 2 \<or> d = 3 \<or> d = 4 \<or> d = 5 \<or> d = 6 \<or> d = 7 \<or>
      d = 8 \<or> d = 9"
    by arith
  then show ?thesis
    by (elim disjE) (simp_all add: digit_value_def digit_char_def)
qed

lemma read_nat_snoc: "read_nat (s @ [c]) = 10 * read_nat s + digit_value c"
  by (simp add: read_nat_def)

lemma read_nat_show_nat: "read_nat (show_nat n) = n"
proof (induction n rule: show_nat.induct)
  case (1 n)
  show ?case
  proof (cases "n < 10")
    case True
    then have "show_nat n = [digit_char n]"
      by (simp add: show_nat.simps)
    with True show ?thesis
      by (simp add: read_nat_def digit_value_digit_char)
  next
    case False
    then have eq: "show_nat n = show_nat (n div 10) @ [digit_char (n mod 10)]"
      by (subst show_nat.simps) simp
    have "read_nat (show_nat n) = 10 * read_nat (show_nat (n div 10)) + n mod 10"
      unfolding eq by (simp add: read_nat_snoc digit_value_digit_char)
    with "1.IH" [OF False] show ?thesis
      by simp
  qed
qed

lemma run_identifier_in_rows:
  assumes "row \<in> set (concat (map (module_rows CodeID) Ms))"
  shows "hd (csv_fields row) = show_nat (unat CodeID) \<and>
         read_nat (hd (csv_fields row)) = unat CodeID"
proof -
  from assms obtain M where "row \<in> set (module_rows CodeID M)"
    by auto
  then obtain l SE FuncName where "row = loop_row l SE FuncName CodeID"
    using module_rows_member by blast
  then show ?thesis
    by (simp add: loop_row_first_field read_nat_show_nat)
qed

lemma unat_succ_32:
  assumes "unat (c :: 32 word) < 4294967295"
  shows "unat (c + 1) = unat c + 1"
proof -
  have "unat c + unat (1 :: 32 word) < 2 ^ LENGTH(32)"
    using assms by simp
  then have "unat (c + 1) = unat c + unat (1 :: 32 word)"
    by (simp only: unat_add_lem)
  then show ?thesis
    by simp
qed

text \<open>
  C2, as stated: the destructor stores the loaded value plus one. The counter is a
  32-bit \<^verbatim>\<open>unsigned\<close>: loaded from a file that holds \<open>4294967295\<close>, it is 0 after the
  first run, and 0 is what the destructor stores.
\<close>

theorem run_counter_wraps_at_2_32:
  "CodeIDCounter (constructor (new_process ex_env_max)) = 4294967295 \<and>
   CurrentCodeID (run [ex_main] (constructor (new_process ex_env_max))) = Some 4294967295 \<and>
   CodeIDCounter (run [ex_main] (constructor (new_process ex_env_max))) = 0 \<and>
   code_id_txt (destructor (run [ex_main] (constructor (new_process ex_env_max)))) = Some 0"
proof -
  have a: "CodeIDCounter (constructor (new_process ex_env_max)) = 4294967295"
    by (simp add: constructor_fields new_process_fields ex_env_max_def)
  have fresh: "CurrentCodeID (constructor (new_process ex_env_max)) = None"
    by (simp add: constructor_fields new_process_fields)
  have wr: "code_id_can_write (constructor (new_process ex_env_max))"
    by (simp add: constructor_fields new_process_fields ex_env_max_def ex_env_def)
  note step = run_first [OF fresh, of "[ex_main]"]
  have b: "CurrentCodeID (run [ex_main] (constructor (new_process ex_env_max))) =
      Some 4294967295"
    by (simp add: step write_OutFile_fields a)
  have c: "CodeIDCounter (run [ex_main] (constructor (new_process ex_env_max))) = 0"
    by (simp add: step write_OutFile_fields a)
  have d: "code_id_txt (destructor (run [ex_main] (constructor (new_process ex_env_max)))) =
      Some 0"
    using wr
    by (simp add: destructor_def saveCodeIDCounter_def step write_OutFile_fields a)
  show ?thesis
    by (rule conjI [OF a conjI [OF b conjI [OF c d]]])
qed

text \<open>
  C2, as the code has it. The run identifier is the counter value loaded at startup. The
  first call of run increments the counter in memory once and no later call changes it,
  whatever the number of compilation units and loops; the counter is then the loaded
  value plus one whenever the loaded value is below \<open>4294967295\<close>. The first column of
  every row written by the process is the decimal numeral of that one identifier, and
  the destructor stores the counter, the loaded value plus one under the same bound, in
  the side store.
\<close>

theorem run_identifier_once_per_process:
  assumes "Ms \<noteq> []" and "code_id_can_write w"
    and "w0 = constructor (new_process w)"
    and "loaded = (case code_id_txt w of Some v \<Rightarrow> v | None \<Rightarrow> 0)"
  shows "CodeIDCounter w0 = loaded \<and>
         CurrentCodeID (fold run Ms w0) = Some loaded \<and>
         CodeIDCounter (fold run Ms w0) = CodeIDCounter (run (hd Ms) w0) \<and>
         (unat loaded < 4294967295 \<longrightarrow>
            unat (CodeIDCounter (fold run Ms w0)) = unat loaded + 1) \<and>
         loop_features_csv (fold run Ms w0) =
           (if OutFile_is_open w0
            then loop_features_csv w0 @ concat (concat (map (module_rows loaded) Ms))
            else loop_features_csv w0) \<and>
         (\<forall>row \<in> set (concat (map (module_rows loaded) Ms)).
            hd (csv_fields row) = show_nat (unat loaded) \<and>
            read_nat (hd (csv_fields row)) = unat loaded) \<and>
         code_id_txt (destructor (fold run Ms w0)) = Some (CodeIDCounter (fold run Ms w0)) \<and>
         (unat loaded < 4294967295 \<longrightarrow>
            (\<exists>v. code_id_txt (destructor (fold run Ms w0)) = Some v \<and>
                 unat v = unat loaded + 1))"
proof -
  have fresh: "CurrentCodeID w0 = None"
    by (simp add: assms(3) constructor_fields new_process_fields)
  have counter: "CodeIDCounter w0 = loaded"
    by (simp add: assms(3,4) constructor_fields new_process_fields)
  have writable: "code_id_can_write w0"
    by (simp add: assms(2,3) constructor_fields new_process_fields)
  have all: "fold run Ms w0 =
      write_OutFile (concat (concat (map (module_rows loaded) Ms)))
        (w0\<lparr>CurrentCodeID := Some loaded, CodeIDCounter := loaded + 1\<rparr>)"
    using fold_run_first [OF fresh assms(1)] by (simp add: counter)
  have first: "CodeIDCounter (run (hd Ms) w0) = loaded + 1"
    using run_first [OF fresh, of "hd Ms"] by (simp add: write_OutFile_fields counter)
  have id: "CurrentCodeID (fold run Ms w0) = Some loaded"
    by (simp add: all write_OutFile_fields)
  have incr: "CodeIDCounter (fold run Ms w0) = loaded + 1"
    by (simp add: all write_OutFile_fields)
  have once: "CodeIDCounter (fold run Ms w0) = CodeIDCounter (run (hd Ms) w0)"
    by (simp only: incr first)
  have plus: "unat loaded < 4294967295 \<longrightarrow>
      unat (CodeIDCounter (fold run Ms w0)) = unat loaded + 1"
    by (simp only: incr) (rule impI, rule unat_succ_32)
  have rows: "loop_features_csv (fold run Ms w0) =
      (if OutFile_is_open w0
       then loop_features_csv w0 @ concat (concat (map (module_rows loaded) Ms))
       else loop_features_csv w0)"
    by (simp add: all write_OutFile_fields)
  have ident: "\<forall>row \<in> set (concat (map (module_rows loaded) Ms)).
      hd (csv_fields row) = show_nat (unat loaded) \<and>
      read_nat (hd (csv_fields row)) = unat loaded"
    by (rule ballI) (rule run_identifier_in_rows)
  have saved: "code_id_txt (destructor (fold run Ms w0)) =
      Some (CodeIDCounter (fold run Ms w0))"
    using writable by (simp add: all destructor_def saveCodeIDCounter_def write_OutFile_fields)
  have saved_plus: "unat loaded < 4294967295 \<longrightarrow>
      (\<exists>v. code_id_txt (destructor (fold run Ms w0)) = Some v \<and> unat v = unat loaded + 1)"
    using saved plus by blast
  show ?thesis
    by (rule conjI [OF counter conjI [OF id conjI [OF once conjI [OF plus
          conjI [OF rows conjI [OF ident conjI [OF saved saved_plus]]]]]]])
qed

theorem run_identifier_once_per_process_witness:
  "CodeIDCounter (constructor (new_process ex_env)) = 41 \<and>
   CurrentCodeID (fold run [[ex_printf, ex_main], [ex_straight]]
     (constructor (new_process ex_env))) = Some 41 \<and>
   unat (CodeIDCounter (fold run [[ex_printf, ex_main], [ex_straight]]
     (constructor (new_process ex_env)))) = 42 \<and>
   loop_features_csv (fold run [[ex_printf, ex_main], [ex_straight]]
     (constructor (new_process ex_env))) =
     header_line @ [CHR 0x0A] @
     ''41,main,for.cond,6,1,0,4,4,0,0,1,1,0,3,12,2,4,0,3,3,1'' @ [CHR 0x0A] @
     ''41,main,for.body,3,0,0,2,2,0,0,1,1,0,1,6,2,2,10,1,1,2'' @ [CHR 0x0A] \<and>
   code_id_txt (destructor (fold run [[ex_printf, ex_main], [ex_straight]]
     (constructor (new_process ex_env)))) = Some 42"
proof -
  have ne: "[[ex_printf, ex_main], [ex_straight]] \<noteq> []"
    by simp
  have wr: "code_id_can_write ex_env"
    by (simp add: ex_env_def)
  have ld: "(case code_id_txt ex_env of Some v \<Rightarrow> v | None \<Rightarrow> 0) = 41"
    by (simp add: ex_env_def)
  have written: "concat (concat (map (module_rows 41) [[ex_printf, ex_main], [ex_straight]])) =
      ''41,main,for.cond,6,1,0,4,4,0,0,1,1,0,3,12,2,4,0,3,3,1'' @ [CHR 0x0A] @
      ''41,main,for.body,3,0,0,2,2,0,0,1,1,0,1,6,2,2,10,1,1,2'' @ [CHR 0x0A]"
    by (simp add: module_rows_def ex_other_rows ex_main_rows)
  note inst = run_identifier_once_per_process [OF ne wr refl refl]
  note inst41 = inst [unfolded ld]
  from inst41 have a: "CodeIDCounter (constructor (new_process ex_env)) = 41"
    by (rule conjunct1)
  from inst41 have b: "CurrentCodeID (fold run [[ex_printf, ex_main], [ex_straight]]
      (constructor (new_process ex_env))) = Some 41"
    by (rule conjunct1 [OF conjunct2])
  from inst41 have "unat (41 :: 32 word) < 4294967295 \<longrightarrow>
      unat (CodeIDCounter (fold run [[ex_printf, ex_main], [ex_straight]]
        (constructor (new_process ex_env)))) = unat (41 :: 32 word) + 1"
    by (rule conjunct1 [OF conjunct2 [OF conjunct2 [OF conjunct2]]])
  then have c: "unat (CodeIDCounter (fold run [[ex_printf, ex_main], [ex_straight]]
      (constructor (new_process ex_env)))) = 42"
    by simp
  from inst41 have "loop_features_csv (fold run [[ex_printf, ex_main], [ex_straight]]
      (constructor (new_process ex_env))) =
      (if OutFile_is_open (constructor (new_process ex_env))
       then loop_features_csv (constructor (new_process ex_env)) @
            concat (concat (map (module_rows 41) [[ex_printf, ex_main], [ex_straight]]))
       else loop_features_csv (constructor (new_process ex_env)))"
    by (rule conjunct1 [OF conjunct2 [OF conjunct2 [OF conjunct2 [OF conjunct2]]]])
  then have d: "loop_features_csv (fold run [[ex_printf, ex_main], [ex_straight]]
      (constructor (new_process ex_env))) =
      header_line @ [CHR 0x0A] @
      ''41,main,for.cond,6,1,0,4,4,0,0,1,1,0,3,12,2,4,0,3,3,1'' @ [CHR 0x0A] @
      ''41,main,for.body,3,0,0,2,2,0,0,1,1,0,1,6,2,2,10,1,1,2'' @ [CHR 0x0A]"
    by (simp only: ex_started written if_True append_assoc)
  from inst41 have "code_id_txt (destructor (fold run [[ex_printf, ex_main], [ex_straight]]
      (constructor (new_process ex_env)))) =
      Some (CodeIDCounter (fold run [[ex_printf, ex_main], [ex_straight]]
        (constructor (new_process ex_env))))"
    by (rule conjunct1 [OF conjunct2 [OF conjunct2 [OF conjunct2 [OF conjunct2
          [OF conjunct2 [OF conjunct2]]]]]])
  moreover have "CodeIDCounter (fold run [[ex_printf, ex_main], [ex_straight]]
      (constructor (new_process ex_env))) = 42"
    using c by (simp add: word_unat_eq_iff)
  ultimately have e: "code_id_txt (destructor (fold run [[ex_printf, ex_main], [ex_straight]]
      (constructor (new_process ex_env)))) = Some 42"
    by (simp only:)
  show ?thesis
    by (rule conjI [OF a conjI [OF b conjI [OF c conjI [OF d e]]]])
qed

section \<open>Functions without loops\<close>

lemma run_function_skips:
  assumes "isDeclaration F \<or> F_LoopInfo F = []"
  shows "run_function CodeID F w = w"
  using assms by (auto simp: run_function_def)

lemma fold_run_function_filter:
  "fold (run_function CodeID) M w =
     fold (run_function CodeID)
       (filter (\<lambda>F. \<not> isDeclaration F \<and> F_LoopInfo F \<noteq> []) M) w"
proof (induction M arbitrary: w)
  case Nil
  show ?case by simp
next
  case (Cons F M)
  show ?case
  proof (cases "isDeclaration F \<or> F_LoopInfo F = []")
    case True
    then have "run_function CodeID F w = w"
      by (rule run_function_skips)
    with True Cons.IH show ?thesis by auto
  next
    case False
    with Cons.IH show ?thesis by simp
  qed
qed

text \<open>
  C9. For every compilation unit, run writes rows only for functions that have a body and
  a non-empty loop forest: a declaration and a function whose loop forest is empty leave
  the dataset (and everything else) as it was, so the unit's rows are those of its other
  functions.
\<close>

theorem loopless_functions_write_nothing:
  "(isDeclaration F \<or> F_LoopInfo F = [] \<longrightarrow>
      run_function CodeID F w = w \<and> function_rows CodeID F = []) \<and>
   run M w = run (filter (\<lambda>F. \<not> isDeclaration F \<and> F_LoopInfo F \<noteq> []) M) w"
proof -
  have one: "isDeclaration F \<or> F_LoopInfo F = [] \<longrightarrow>
      run_function CodeID F w = w \<and> function_rows CodeID F = []"
    by (auto simp: run_function_skips function_rows_def)
  have "run M w = run (filter (\<lambda>F. \<not> isDeclaration F \<and> F_LoopInfo F \<noteq> []) M) w"
    unfolding run_def
    by (cases "init_CurrentCodeID w") (simp add: fold_run_function_filter [symmetric])
  with one show ?thesis by simp
qed

theorem loopless_functions_write_nothing_witness:
  "isDeclaration ex_printf \<and> F_LoopInfo ex_straight = [] \<and>
   run_function 41 ex_printf (constructor (new_process ex_env)) =
     constructor (new_process ex_env) \<and>
   run_function 41 ex_straight (constructor (new_process ex_env)) =
     constructor (new_process ex_env) \<and>
   run [ex_printf, ex_main, ex_straight] (constructor (new_process ex_env)) =
     run [ex_main] (constructor (new_process ex_env))"
proof -
  have d: "isDeclaration ex_printf"
    by (simp add: ex_printf_def)
  have e: "F_LoopInfo ex_straight = []"
    by (simp add: ex_straight_def)
  have f: "filter (\<lambda>F. \<not> isDeclaration F \<and> F_LoopInfo F \<noteq> [])
             [ex_printf, ex_main, ex_straight] = [ex_main]"
    by (simp add: ex_printf_def ex_straight_def ex_main_def)
  note inst = loopless_functions_write_nothing
    [of ex_printf 41 "constructor (new_process ex_env)" "[ex_printf, ex_main, ex_straight]"]
  note inst' = loopless_functions_write_nothing
    [of ex_straight 41 "constructor (new_process ex_env)" "[]"]
  from inst d have a: "run_function 41 ex_printf (constructor (new_process ex_env)) =
      constructor (new_process ex_env)"
    by blast
  from inst' e have b: "run_function 41 ex_straight (constructor (new_process ex_env)) =
      constructor (new_process ex_env)"
    by blast
  from inst have "run [ex_printf, ex_main, ex_straight] (constructor (new_process ex_env)) =
      run (filter (\<lambda>F. \<not> isDeclaration F \<and> F_LoopInfo F \<noteq> [])
             [ex_printf, ex_main, ex_straight]) (constructor (new_process ex_env))"
    by (rule conjunct2)
  then have c: "run [ex_printf, ex_main, ex_straight] (constructor (new_process ex_env)) =
      run [ex_main] (constructor (new_process ex_env))"
    by (simp only: f)
  show ?thesis
    by (rule conjI [OF d conjI [OF e conjI [OF a conjI [OF b c]]]])
qed

section \<open>Nested loops\<close>

lemma loop_nest_ok_preorder:
  assumes "loop_nest_ok L" and "l \<in> set (loops_preorder L)"
  shows "loop_nest_ok l"
  using assms
proof (induction L)
  case (Loop Header bs depth subs)
  show ?case
  proof (cases "l = Loop Header bs depth subs")
    case True
    with Loop.prems(1) show ?thesis by simp
  next
    case False
    with Loop.prems(2) obtain S where S: "S \<in> set subs" "l \<in> set (loops_preorder S)"
      by auto
    from Loop.prems(1) S(1) have "loop_nest_ok S"
      by simp
    with Loop.IH S show ?thesis by blast
  qed
qed

lemma sub_loop_block_count:
  assumes "loop_nest_ok l" and "S \<in> set (getSubLoops l)"
  shows "length (blocks S) \<le> length (blocks l)"
proof (cases l)
  case (Loop Header bs depth subs)
  with assms have d: "distinct (map BB_id (blocks S))"
    and sub: "set (map BB_id (blocks S)) \<subseteq> set (map BB_id bs)"
    by auto
  from distinct_card [OF d] have "length (blocks S) = card (set (map BB_id (blocks S)))"
    by simp
  also have "\<dots> \<le> card (set (map BB_id bs))"
    using sub by (intro card_mono) simp_all
  also have "\<dots> \<le> length (map BB_id bs)"
    by (rule card_length)
  finally show ?thesis
    using Loop by simp
qed

lemma num_blocks_in_lp_length:
  "num_blocks_in_lp (loop_locals l SE) = of_nat (length (blocks l))"
  by (simp add: loop_locals_fields fold_visit_block_edges initial_locals_fields)

lemma visit_block_same_blocks:
  assumes "blocks L' = blocks L"
  shows "visit_block L' = visit_block L"
proof -
  have "visit_user L' = visit_user L"
    using assms by (intro ext) (simp add: visit_user_def contains_def split: user.splits)
  then have "visit_inst L' = visit_inst L"
    by (intro ext) (simp add: visit_inst_def)
  then show ?thesis
    by (intro ext) (simp add: visit_block_def)
qed

lemma loop_locals_same_blocks:
  assumes "blocks L' = blocks L"
  shows "(loop_locals L' SE')\<lparr>trip_count := 0\<rparr> = (loop_locals L SE)\<lparr>trip_count := 0\<rparr>"
  using assms visit_block_same_blocks [OF assms]
  by (simp add: loop_locals_def Let_def)

lemma preorder_parent_first:
  assumes "l \<in> set (loops_preorder L)"
  shows "\<exists>pre post. loops_preorder L = pre @ l # post \<and>
           (\<forall>S \<in> set (getSubLoops l). set (loops_preorder S) \<subseteq> set post)"
  using assms
proof (induction L)
  case (Loop Header bs depth subs)
  show ?case
  proof (cases "l = Loop Header bs depth subs")
    case True
    have "loops_preorder (Loop Header bs depth subs) =
        [] @ l # concat (map loops_preorder subs)"
      using True by simp
    moreover have "\<forall>S \<in> set (getSubLoops l).
        set (loops_preorder S) \<subseteq> set (concat (map loops_preorder subs))"
      using True by auto
    ultimately show ?thesis
      by blast
  next
    case False
    with Loop.prems obtain T where T: "T \<in> set subs" "l \<in> set (loops_preorder T)"
      by auto
    from Loop.IH [OF T] obtain pre post where
      dec: "loops_preorder T = pre @ l # post"
      and after: "\<forall>S \<in> set (getSubLoops l). set (loops_preorder S) \<subseteq> set post"
      by blast
    from T(1) obtain xs ys where subs: "subs = xs @ T # ys"
      by (meson split_list)
    have "loops_preorder (Loop Header bs depth subs) =
        (Loop Header bs depth subs # concat (map loops_preorder xs) @ pre) @ l #
        (post @ concat (map loops_preorder ys))"
      by (simp add: subs dec)
    moreover have "\<forall>S \<in> set (getSubLoops l).
        set (loops_preorder S) \<subseteq> set (post @ concat (map loops_preorder ys))"
      using after by auto
    ultimately show ?thesis
      by blast
  qed
qed

lemma num_loops_preorder: "length (loops_preorder L) = num_loops L"
proof (induction L)
  case (Loop Header bs depth subs)
  have "(\<Sum>S \<leftarrow> subs. length (loops_preorder S)) = sum_list (map num_loops subs)"
    using Loop.IH by (intro arg_cong [where f = sum_list] map_cong) simp_all
  then show ?case
    by (simp add: length_concat comp_def)
qed

lemma hd_loops_preorder: "hd (loops_preorder L) = L"
  by (cases L) simp

lemma count_newlines_append:
  "count_newlines (a @ b) = count_newlines a + count_newlines b"
  by (simp add: count_newlines_def)

lemma count_newlines_rows:
  assumes "\<And>x. x \<in> set xs \<Longrightarrow> count_newlines (f x) = 1"
  shows "count_newlines (concat (map f xs)) = length xs"
  using assms by (induction xs) (simp_all add: count_newlines_append, simp add: count_newlines_def)

lemma count_newlines_line:
  assumes "CHR 0x0A \<notin> set body"
  shows "count_newlines (body @ [CHR 0x0A]) = 1"
proof -
  have "filter (\<lambda>c. c = CHR 0x0A) body = []"
    using assms by (auto simp: filter_empty_conv)
  then show ?thesis
    by (simp add: count_newlines_def)
qed

lemma loop_row_columns:
  "loop_row l SE FuncName CodeID =
     join_commas (output_columns CodeID FuncName (BB_getName (getHeader l))
                    (loop_locals l SE) (getLoopDepth l)) @ [CHR 0x0A]"
  by (simp only: loop_row_def output_row_join)

lemma count_newlines_loop_row:
  assumes "CHR 0x0A \<notin> set FuncName" and "CHR 0x0A \<notin> set (BB_getName (getHeader l))"
  shows "count_newlines (loop_row l SE FuncName CodeID) = 1"
proof -
  have "CHR 0x0A \<notin> set (join_commas (output_columns CodeID FuncName
      (BB_getName (getHeader l)) (loop_locals l SE) (getLoopDepth l)))"
    using assms by (intro newline_not_in_join_commas) (rule output_columns_no_newline)
  then have "count_newlines (join_commas (output_columns CodeID FuncName
      (BB_getName (getHeader l)) (loop_locals l SE) (getLoopDepth l)) @ [CHR 0x0A]) = 1"
    by (rule count_newlines_line)
  then show ?thesis
    by (simp only: loop_row_columns)
qed

lemma ex_many_pos: "1 < ex_many"
  by (simp add: ex_many_def)

lemma ex_many_block_ids: "map BB_id ex_many_blocks = [0..<ex_many]"
proof -
  have "map BB_id ex_many_blocks = map (\<lambda>i. i) [0..<ex_many]"
    by (simp add: ex_many_blocks_def ex_br_block_def comp_def)
  then show ?thesis
    by simp
qed

lemma ex_many_blocks_length: "length ex_many_blocks = ex_many"
  by (simp add: ex_many_blocks_def)

text \<open>
  C5, as stated: analyzeLoop emits exactly one record for the loop, and the
  \<open>num_blocks_in_lp\<close> of an outer loop is at least that of each of its sub-loops. When
  the dataset could not be opened the pass goes on and the stream drops every row; and
  \<open>num_blocks_in_lp\<close> is an \<^verbatim>\<open>int\<close>, so an outer loop of \<open>2^31\<close> blocks is written
  with \<open>-2147483648\<close>, below the 1 of its one-block sub-loop.
\<close>

theorem analyzeLoop_no_row_and_block_count_wraps:
  "\<not> OutFile_is_open (constructor (new_process ex_env_locked)) \<and>
   loop_features_csv
     (analyzeLoop ex_outer ex_SE ''main'' 41 (constructor (new_process ex_env_locked))) = [] \<and>
   loop_nest_ok ex_many_loop \<and>
   getSubLoops ex_many_loop = [ex_small_inner] \<and>
   sint (num_blocks_in_lp (loop_locals ex_many_loop ex_SE)) = - 2147483648 \<and>
   sint (num_blocks_in_lp (loop_locals ex_small_inner ex_SE)) = 1"
proof -
  have closed: "\<not> OutFile_is_open (constructor (new_process ex_env_locked))"
    by (simp add: constructor_def initializeCodeIDCounter_def initializeOutFile_def
          new_process_def ex_env_locked_def ex_env_def)
  have empty: "loop_features_csv (constructor (new_process ex_env_locked)) = []"
    by (simp add: constructor_def initializeCodeIDCounter_def initializeOutFile_def
          new_process_def ex_env_locked_def ex_env_def)
  have none: "loop_features_csv
      (analyzeLoop ex_outer ex_SE ''main'' 41 (constructor (new_process ex_env_locked))) = []"
    using closed empty by (simp add: analyzeLoop_writes write_OutFile_fields)
  have "1 \<in> set (map BB_id ex_many_blocks)"
    using ex_many_pos by (simp only: ex_many_block_ids) simp
  then have ok: "loop_nest_ok ex_many_loop"
    by (simp add: ex_many_loop_def ex_small_inner_def ex_br_block_def del: set_map)
  have subs: "getSubLoops ex_many_loop = [ex_small_inner]"
    by (simp add: ex_many_loop_def)
  have "num_blocks_in_lp (loop_locals ex_many_loop ex_SE) = of_nat ex_many"
    by (simp only: num_blocks_in_lp_length ex_many_loop_blocks ex_many_blocks_length)
  then have outer: "sint (num_blocks_in_lp (loop_locals ex_many_loop ex_SE)) = - 2147483648"
    by (simp only: sint_of_nat_ex_many)
  have inner: "sint (num_blocks_in_lp (loop_locals ex_small_inner ex_SE)) = 1"
    by (simp add: num_blocks_in_lp_length ex_small_inner_def)
  show ?thesis
    by (rule conjI [OF closed conjI [OF none conjI [OF ok conjI [OF subs
          conjI [OF outer inner]]]]])
qed

text \<open>
  C5, as the code has it. With the dataset stream open, analyzeLoop appends exactly one
  row, a line of the 21 columns, for the loop it is given and then the rows of its
  sub-loops: the lines appended are those of every loop of the nest, one each, the row of
  a loop before the rows of the loops nested in it. Every row is computed from the member
  blocks of its own loop alone. In a loop nest as LoopInfo builds it (a sub-loop's blocks
  are blocks of its parent, none listed twice), the \<open>num_blocks_in_lp\<close> of a loop with
  fewer than \<open>2^31\<close> member blocks is at least that of each of its sub-loops.
\<close>

theorem analyzeLoop_one_row_per_loop:
  assumes "OutFile_is_open w" and "loop_nest_ok L"
  shows "loop_features_csv (analyzeLoop L SE FuncName CodeID w) =
           loop_features_csv w @
           concat (map (\<lambda>l. join_commas (output_columns CodeID FuncName
                                (BB_getName (getHeader l)) (loop_locals l SE) (getLoopDepth l))
                              @ [CHR 0x0A])
                       (loops_preorder L)) \<and>
         length (loops_preorder L) = num_loops L \<and>
         (CHR 0x0A \<notin> set FuncName \<and>
          (\<forall>l \<in> set (loops_preorder L). CHR 0x0A \<notin> set (BB_getName (getHeader l))) \<longrightarrow>
            count_newlines (loop_features_csv (analyzeLoop L SE FuncName CodeID w)) =
              count_newlines (loop_features_csv w) + num_loops L) \<and>
         hd (loops_preorder L) = L \<and>
         (\<forall>l \<in> set (loops_preorder L).
            (\<exists>pre post. loops_preorder L = pre @ l # post \<and>
               (\<forall>S \<in> set (getSubLoops l). set (loops_preorder S) \<subseteq> set post)) \<and>
            num_blocks_in_lp (loop_locals l SE) = of_nat (length (blocks l)) \<and>
            (\<forall>L'. blocks L' = blocks l \<longrightarrow>
               (loop_locals L' SE)\<lparr>trip_count := 0\<rparr> = (loop_locals l SE)\<lparr>trip_count := 0\<rparr>) \<and>
            (length (blocks l) < 2 ^ 31 \<longrightarrow>
               (\<forall>S \<in> set (getSubLoops l).
                  sint (num_blocks_in_lp (loop_locals S SE)) \<le>
                  sint (num_blocks_in_lp (loop_locals l SE)))))"
proof -
  have appended: "loop_features_csv (analyzeLoop L SE FuncName CodeID w) =
      loop_features_csv w @
      concat (map (\<lambda>l. loop_row l SE FuncName CodeID) (loops_preorder L))"
    using assms(1) by (simp add: analyzeLoop_writes write_OutFile_fields loop_rows_def)
  have rows: "loop_features_csv (analyzeLoop L SE FuncName CodeID w) =
      loop_features_csv w @
      concat (map (\<lambda>l. join_commas (output_columns CodeID FuncName
                           (BB_getName (getHeader l)) (loop_locals l SE) (getLoopDepth l))
                         @ [CHR 0x0A])
                  (loops_preorder L))"
    by (simp only: appended loop_row_columns)
  have number: "length (loops_preorder L) = num_loops L"
    by (rule num_loops_preorder)
  have lines: "CHR 0x0A \<notin> set FuncName \<and>
      (\<forall>l \<in> set (loops_preorder L). CHR 0x0A \<notin> set (BB_getName (getHeader l))) \<longrightarrow>
      count_newlines (loop_features_csv (analyzeLoop L SE FuncName CodeID w)) =
        count_newlines (loop_features_csv w) + num_loops L"
  proof (rule impI)
    assume names: "CHR 0x0A \<notin> set FuncName \<and>
      (\<forall>l \<in> set (loops_preorder L). CHR 0x0A \<notin> set (BB_getName (getHeader l)))"
    have "count_newlines (concat (map (\<lambda>l. loop_row l SE FuncName CodeID) (loops_preorder L))) =
        length (loops_preorder L)"
      using names by (intro count_newlines_rows count_newlines_loop_row) simp_all
    then show "count_newlines (loop_features_csv (analyzeLoop L SE FuncName CodeID w)) =
        count_newlines (loop_features_csv w) + num_loops L"
      by (simp only: appended count_newlines_append number)
  qed
  have first: "hd (loops_preorder L) = L"
    by (rule hd_loops_preorder)
  have each: "\<forall>l \<in> set (loops_preorder L).
      (\<exists>pre post. loops_preorder L = pre @ l # post \<and>
         (\<forall>S \<in> set (getSubLoops l). set (loops_preorder S) \<subseteq> set post)) \<and>
      num_blocks_in_lp (loop_locals l SE) = of_nat (length (blocks l)) \<and>
      (\<forall>L'. blocks L' = blocks l \<longrightarrow>
         (loop_locals L' SE)\<lparr>trip_count := 0\<rparr> = (loop_locals l SE)\<lparr>trip_count := 0\<rparr>) \<and>
      (length (blocks l) < 2 ^ 31 \<longrightarrow>
         (\<forall>S \<in> set (getSubLoops l).
            sint (num_blocks_in_lp (loop_locals S SE)) \<le>
            sint (num_blocks_in_lp (loop_locals l SE))))"
  proof (rule ballI)
    fix l
    assume mem: "l \<in> set (loops_preorder L)"
    from assms(2) mem have ok: "loop_nest_ok l"
      by (rule loop_nest_ok_preorder)
    have o: "\<exists>pre post. loops_preorder L = pre @ l # post \<and>
        (\<forall>S \<in> set (getSubLoops l). set (loops_preorder S) \<subseteq> set post)"
      using mem by (rule preorder_parent_first)
    have a: "num_blocks_in_lp (loop_locals l SE) = of_nat (length (blocks l))"
      by (rule num_blocks_in_lp_length)
    have b: "\<forall>L'. blocks L' = blocks l \<longrightarrow>
        (loop_locals L' SE)\<lparr>trip_count := 0\<rparr> = (loop_locals l SE)\<lparr>trip_count := 0\<rparr>"
      by (intro allI impI) (rule loop_locals_same_blocks)
    have c: "length (blocks l) < 2 ^ 31 \<longrightarrow>
        (\<forall>S \<in> set (getSubLoops l).
           sint (num_blocks_in_lp (loop_locals S SE)) \<le>
           sint (num_blocks_in_lp (loop_locals l SE)))"
    proof (intro impI ballI)
      fix S
      assume small: "length (blocks l) < 2 ^ 31" and S: "S \<in> set (getSubLoops l)"
      from sub_loop_block_count [OF ok S] have le: "length (blocks S) \<le> length (blocks l)" .
      with small have small': "length (blocks S) < 2 ^ 31"
        by simp
      show "sint (num_blocks_in_lp (loop_locals S SE)) \<le>
          sint (num_blocks_in_lp (loop_locals l SE))"
        using le
        by (simp add: num_blocks_in_lp_length sint_of_nat_small [OF small]
              sint_of_nat_small [OF small'])
    qed
    show "(\<exists>pre post. loops_preorder L = pre @ l # post \<and>
         (\<forall>S \<in> set (getSubLoops l). set (loops_preorder S) \<subseteq> set post)) \<and>
      num_blocks_in_lp (loop_locals l SE) = of_nat (length (blocks l)) \<and>
      (\<forall>L'. blocks L' = blocks l \<longrightarrow>
         (loop_locals L' SE)\<lparr>trip_count := 0\<rparr> = (loop_locals l SE)\<lparr>trip_count := 0\<rparr>) \<and>
      (length (blocks l) < 2 ^ 31 \<longrightarrow>
         (\<forall>S \<in> set (getSubLoops l).
            sint (num_blocks_in_lp (loop_locals S SE)) \<le>
            sint (num_blocks_in_lp (loop_locals l SE))))"
      by (rule conjI [OF o conjI [OF a conjI [OF b c]]])
  qed
  show ?thesis
    by (rule conjI [OF rows conjI [OF number conjI [OF lines conjI [OF first each]]]])
qed

theorem analyzeLoop_one_row_per_loop_witness:
  "OutFile_is_open (constructor (new_process ex_env)) \<and> loop_nest_ok ex_outer \<and>
   loops_preorder ex_outer = [ex_outer, ex_inner] \<and> num_loops ex_outer = 2 \<and>
   loop_features_csv (analyzeLoop ex_outer ex_SE ''main'' 41 (constructor (new_process ex_env))) =
     header_line @ [CHR 0x0A] @
     ''41,main,for.cond,6,1,0,4,4,0,0,1,1,0,3,12,2,4,0,3,3,1'' @ [CHR 0x0A] @
     ''41,main,for.body,3,0,0,2,2,0,0,1,1,0,1,6,2,2,10,1,1,2'' @ [CHR 0x0A] \<and>
   sint (num_blocks_in_lp (loop_locals ex_inner ex_SE)) \<le>
     sint (num_blocks_in_lp (loop_locals ex_outer ex_SE))"
proof -
  have opened: "OutFile_is_open (constructor (new_process ex_env))"
    by (rule ex_started)
  have ok: "loop_nest_ok ex_outer"
    by (simp add: ex_outer_def ex_inner_def ex_header_def ex_inner_header_def ex_latch_def)
  note inst = analyzeLoop_one_row_per_loop [OF opened ok, of ex_SE "''main''" 41]
  from inst have
    "loop_features_csv (analyzeLoop ex_outer ex_SE ''main'' 41 (constructor (new_process ex_env))) =
       loop_features_csv (constructor (new_process ex_env)) @
       concat (map (\<lambda>l. join_commas (output_columns 41 ''main''
                            (BB_getName (getHeader l)) (loop_locals l ex_SE) (getLoopDepth l))
                          @ [CHR 0x0A])
                   (loops_preorder ex_outer))"
    by (rule conjunct1)
  then have rows:
    "loop_features_csv (analyzeLoop ex_outer ex_SE ''main'' 41 (constructor (new_process ex_env))) =
       header_line @ [CHR 0x0A] @
       ''41,main,for.cond,6,1,0,4,4,0,0,1,1,0,3,12,2,4,0,3,3,1'' @ [CHR 0x0A] @
       ''41,main,for.body,3,0,0,2,2,0,0,1,1,0,1,6,2,2,10,1,1,2'' @ [CHR 0x0A]"
    by (simp only: ex_started ex_outer_preorder loop_row_columns [symmetric]
          ex_outer_loop_row ex_inner_loop_row list.map concat.simps append_Nil2 append_assoc)
  from inst have "length (loops_preorder ex_outer) = num_loops ex_outer"
    by (rule conjunct1 [OF conjunct2])
  then have two: "num_loops ex_outer = 2"
    by (simp add: ex_outer_preorder)
  from inst have each: "\<forall>l \<in> set (loops_preorder ex_outer).
      (\<exists>pre post. loops_preorder ex_outer = pre @ l # post \<and>
         (\<forall>S \<in> set (getSubLoops l). set (loops_preorder S) \<subseteq> set post)) \<and>
      num_blocks_in_lp (loop_locals l ex_SE) = of_nat (length (blocks l)) \<and>
      (\<forall>L'. blocks L' = blocks l \<longrightarrow>
         (loop_locals L' ex_SE)\<lparr>trip_count := 0\<rparr> = (loop_locals l ex_SE)\<lparr>trip_count := 0\<rparr>) \<and>
      (length (blocks l) < 2 ^ 31 \<longrightarrow>
         (\<forall>S \<in> set (getSubLoops l).
            sint (num_blocks_in_lp (loop_locals S ex_SE)) \<le>
            sint (num_blocks_in_lp (loop_locals l ex_SE))))"
    by (rule conjunct2 [OF conjunct2 [OF conjunct2 [OF conjunct2]]])
  have mem: "ex_outer \<in> set (loops_preorder ex_outer)"
    by (simp add: ex_outer_preorder)
  have small: "length (blocks ex_outer) < 2 ^ 31"
    by (simp add: ex_outer_def)
  have sub: "ex_inner \<in> set (getSubLoops ex_outer)"
    by (simp add: ex_outer_def)
  from each mem small sub have le: "sint (num_blocks_in_lp (loop_locals ex_inner ex_SE)) \<le>
      sint (num_blocks_in_lp (loop_locals ex_outer ex_SE))"
    by blast
  show ?thesis
    by (rule conjI [OF opened conjI [OF ok conjI [OF ex_outer_preorder conjI [OF two
          conjI [OF rows le]]]]])
qed

section \<open>The header of the dataset\<close>

lemma initializeOutFile_populated:
  assumes "csv_can_read w" and "loop_features_csv w \<noteq> []"
  shows "loop_features_csv (initializeOutFile w) = loop_features_csv w"
  using assms by (simp add: initializeOutFile_def Let_def)

lemma initializeOutFile_empty:
  assumes "csv_can_open w" and "\<not> initialized w" and "loop_features_csv w = []"
  shows "loop_features_csv (initializeOutFile w) = header_line @ [CHR 0x0A]"
  using assms by (simp add: initializeOutFile_def Let_def write_OutFile_def)

lemma initializeOutFile_unreadable:
  assumes "csv_can_open w" and "\<not> initialized w" and "\<not> csv_can_read w"
  shows "loop_features_csv (initializeOutFile w) =
           loop_features_csv w @ header_line @ [CHR 0x0A]"
  using assms by (simp add: initializeOutFile_def Let_def write_OutFile_def)

lemma initializeOutFile_environment:
  "csv_can_open (initializeOutFile w) = csv_can_open w"
  "csv_can_read (initializeOutFile w) = csv_can_read w"
  by (simp_all add: initializeOutFile_def Let_def write_OutFile_def)

lemma reopen_environment:
  "csv_can_open (((\<lambda>e. initializeOutFile (new_process e)) ^^ n) w) = csv_can_open w"
  "csv_can_read (((\<lambda>e. initializeOutFile (new_process e)) ^^ n) w) = csv_can_read w"
  by (induction n) (simp_all add: initializeOutFile_environment new_process_fields)

lemma reopen_populated:
  assumes "csv_can_read w" and "loop_features_csv w \<noteq> []"
  shows "loop_features_csv (((\<lambda>e. initializeOutFile (new_process e)) ^^ n) w) =
           loop_features_csv w"
proof (induction n)
  case 0
  show ?case by simp
next
  case (Suc n)
  let ?w = "((\<lambda>e. initializeOutFile (new_process e)) ^^ n) w"
  have "csv_can_read (new_process ?w)"
    using assms(1) by (simp add: new_process_fields reopen_environment)
  moreover have "loop_features_csv (new_process ?w) \<noteq> []"
    using assms(2) Suc.IH by (simp add: new_process_fields)
  ultimately have "loop_features_csv (initializeOutFile (new_process ?w)) =
      loop_features_csv (new_process ?w)"
    by (rule initializeOutFile_populated)
  with Suc.IH show ?case
    by (simp add: new_process_fields)
qed

lemma reopen_empty:
  assumes "csv_can_open w" and "csv_can_read w" and "loop_features_csv w = []"
  shows "loop_features_csv (((\<lambda>e. initializeOutFile (new_process e)) ^^ Suc n) w) =
           header_line @ [CHR 0x0A]"
proof (induction n)
  case 0
  have "loop_features_csv (initializeOutFile (new_process w)) = header_line @ [CHR 0x0A]"
    using assms by (intro initializeOutFile_empty) (simp_all add: new_process_fields)
  then show ?case by simp
next
  case (Suc n)
  let ?w = "((\<lambda>e. initializeOutFile (new_process e)) ^^ Suc n) w"
  have "csv_can_read (new_process ?w)"
    using assms(2) by (simp add: new_process_fields reopen_environment del: funpow.simps)
  moreover have "loop_features_csv (new_process ?w) \<noteq> []"
    using Suc.IH by (simp add: new_process_fields del: funpow.simps)
  ultimately have "loop_features_csv (initializeOutFile (new_process ?w)) =
      loop_features_csv (new_process ?w)"
    by (rule initializeOutFile_populated)
  then have "loop_features_csv (initializeOutFile (new_process ?w)) = header_line @ [CHR 0x0A]"
    using Suc.IH by (simp add: new_process_fields del: funpow.simps)
  then show ?case
    by simp
qed

lemma header_once_when_readable:
  assumes "csv_can_read w"
  shows "(csv_can_open w \<and> \<not> initialized w \<and> loop_features_csv w = [] \<longrightarrow>
            loop_features_csv (initializeOutFile w) = header_line @ [CHR 0x0A]) \<and>
         (loop_features_csv w \<noteq> [] \<longrightarrow>
            loop_features_csv (initializeOutFile w) = loop_features_csv w \<and>
            loop_features_csv (((\<lambda>e. initializeOutFile (new_process e)) ^^ n) w) =
              loop_features_csv w) \<and>
         (csv_can_open w \<and> loop_features_csv w = [] \<longrightarrow>
            loop_features_csv (((\<lambda>e. initializeOutFile (new_process e)) ^^ Suc n) w) =
              header_line @ [CHR 0x0A]) \<and>
         length (csv_fields header_line) = 21"
proof -
  have cols: "length (csv_fields header_line) = 21"
    by (simp add: header_line_columns)
  show ?thesis
    using cols assms initializeOutFile_empty [of w] initializeOutFile_populated [of w]
      reopen_populated [of w n] reopen_empty [of w n]
    by blast
qed

text \<open>
  C6 says that no header is written when the file already has content, however often
  the writer is opened. Lines 29 and 30 decide by \<^verbatim>\<open>peek()\<close> on a second stream that is
  never tested with \<^verbatim>\<open>is_open\<close>, as the other three streams of the pass are. A dataset
  that holds the header line and can be opened for append but not for reading receives
  the header line a second time, and once more in every later process.
\<close>

theorem header_repeated_when_unreadable:
  "loop_features_csv ex_env_unreadable = header_line @ [CHR 0x0A] \<and>
   csv_can_open ex_env_unreadable \<and>
   loop_features_csv (initializeOutFile (new_process ex_env_unreadable)) =
     header_line @ [CHR 0x0A] @ header_line @ [CHR 0x0A] \<and>
   loop_features_csv
     (initializeOutFile (new_process (initializeOutFile (new_process ex_env_unreadable)))) =
     header_line @ [CHR 0x0A] @ header_line @ [CHR 0x0A] @ header_line @ [CHR 0x0A]"
proof -
  have a: "loop_features_csv ex_env_unreadable = header_line @ [CHR 0x0A]"
    by (simp add: ex_env_unreadable_def)
  have b: "csv_can_open ex_env_unreadable"
    by (simp add: ex_env_unreadable_def ex_env_def)
  have r: "\<not> csv_can_read ex_env_unreadable"
    by (simp add: ex_env_unreadable_def)
  have "loop_features_csv (initializeOutFile (new_process ex_env_unreadable)) =
      loop_features_csv (new_process ex_env_unreadable) @ header_line @ [CHR 0x0A]"
    using b r by (intro initializeOutFile_unreadable) (simp_all add: new_process_fields)
  then have c: "loop_features_csv (initializeOutFile (new_process ex_env_unreadable)) =
      header_line @ [CHR 0x0A] @ header_line @ [CHR 0x0A]"
    by (simp add: new_process_fields a)
  have "loop_features_csv
      (initializeOutFile (new_process (initializeOutFile (new_process ex_env_unreadable)))) =
      loop_features_csv (new_process (initializeOutFile (new_process ex_env_unreadable))) @
      header_line @ [CHR 0x0A]"
    using b r
    by (intro initializeOutFile_unreadable)
       (simp_all add: new_process_fields initializeOutFile_environment)
  then have d: "loop_features_csv
      (initializeOutFile (new_process (initializeOutFile (new_process ex_env_unreadable)))) =
      header_line @ [CHR 0x0A] @ header_line @ [CHR 0x0A] @ header_line @ [CHR 0x0A]"
    by (simp add: new_process_fields c)
  show ?thesis
    by (rule conjI [OF a conjI [OF b conjI [OF c d]]])
qed

end
